theory Spec2Isabelle
  imports Complex_Main "HOL-Library.Sublist" "HOL-Library.Log_Nat"
begin

section \<open>The timing core of the DDR game component (src/components/ddr-game.tsx)\<close>

text \<open>
  The component keeps its game data in reference cells (\<open>notesRef\<close>, \<open>scoreRef\<close>,
  \<open>comboRef\<close>, \<open>maxComboRef\<close>, \<open>totalHitsRef\<close>) that the key handler, the touch handler
  and the render loop mutate. The model passes a record of these cells explicitly.

  Numbers: timestamps and the audio clock are JavaScript numbers, that is IEEE 754
  doubles. A finite double is a rational number, so the values are modelled as rationals,
  and every subtraction and addition that the source performs on them is modelled as the
  exact operation followed by rounding to the nearest double (\<open>dsub\<close>, \<open>dadd\<close>); a
  decimal literal of the source is the double nearest to it (\<open>dbl\<close>). Counters and
  indices are natural numbers. DOM updates are outside the model, except that the calls
  \<open>showLanePress\<close>, \<open>showHitEffect\<close> and \<open>checkEncouragement\<close> are recorded, in
  order, as an effect list, and that the note which \<open>showHitEffect\<close> looks up for the
  coin is modelled.
\<close>

subsection \<open>Double arithmetic\<close>

text \<open>
  \<open>ilog2 x\<close> is the binary exponent of a positive rational: the integer \<open>k\<close> with
  \<open>2^k \<le> x < 2^(k+1)\<close>.
\<close>

definition ilog2 :: "rat \<Rightarrow> int" where
  "ilog2 x = (if 1 \<le> x then bitlen \<lfloor>x\<rfloor> - 1 else - bitlen (\<lceil>1 / x\<rceil> - 1))"

text \<open>Rounding to the nearest integer, a tie going to the even one.\<close>

definition round_even :: "rat \<Rightarrow> int" where
  "round_even y =
     (let f = \<lfloor>y\<rfloor>; r = y - of_int f in
      if r < 1 / 2 then f else if 1 / 2 < r then f + 1 else if even f then f else f + 1)"

text \<open>
  \<open>dbl x\<close> is the double nearest to \<open>x\<close>: the significand has 53 bits, the exponent of
  the last bit is at least \<open>-1074\<close> (subnormal numbers), a tie goes to the even
  significand. Numbers beyond the largest double, which the source turns into
  \<open>Infinity\<close>, stay finite here; the source only ever compares such a result with a
  window of less than a second, and both give the same answer there.
\<close>

definition dbl :: "rat \<Rightarrow> rat" where
  "dbl x =
     (if x = 0 then 0
      else
        (let e = max (ilog2 \<bar>x\<bar> - 52) (- 1074)
         in sgn x * of_int (round_even (\<bar>x\<bar> / 2 powi e)) * 2 powi e))"

text \<open>The operators \<open>-\<close> and \<open>+\<close> of the source on numbers.\<close>

definition dsub :: "rat \<Rightarrow> rat \<Rightarrow> rat" where
  "dsub a b = dbl (a - b)"

definition dadd :: "rat \<Rightarrow> rat \<Rightarrow> rat" where
  "dadd a b = dbl (a + b)"

subsection \<open>Data\<close>

record KaraokeWord =
  word_id :: int
  word_text :: string
  word_duration :: rat
  word_timestamp :: rat

record KaraokeLine =
  line_id :: int
  words :: "KaraokeWord list"

record TimingData =
  songNumber :: int
  title :: string
  audioUrl :: string
  lyrics :: "KaraokeLine list"

record Note =
  note_text :: string
  english :: string
  timestamp :: rat
  duration :: rat
  lane :: nat
  hit :: bool
  note_id :: string

record GameState =
  notesRef :: "Note list"
  scoreRef :: nat
  comboRef :: nat
  maxComboRef :: nat
  totalHitsRef :: nat

text \<open>
  The constant \<open>HIT_WINDOWS = { PERFECT: 0.08, GOOD: 0.15, MISS: 0.25 }\<close>: the doubles
  that the three literals denote.
\<close>

definition HIT_WINDOWS_PERFECT :: rat where
  "HIT_WINDOWS_PERFECT = dbl (8 / 100)"

definition HIT_WINDOWS_GOOD :: rat where
  "HIT_WINDOWS_GOOD = dbl (15 / 100)"

definition HIT_WINDOWS_MISS :: rat where
  "HIT_WINDOWS_MISS = dbl (25 / 100)"

subsection \<open>createNotes\<close>

text \<open>
  The decimal rendering of a non-negative integer, as the template literal
  \<open>`${lineIndex}-${wordIndex}`\<close> produces it for array indices.
\<close>

fun string_of_nat :: "nat \<Rightarrow> string" where
  "string_of_nat n =
     (if n < 10 then [''0123456789'' ! n]
      else string_of_nat (n div 10) @ [''0123456789'' ! (n mod 10)])"

declare string_of_nat.simps [simp del]

text \<open>
  The inner \<open>line.words.forEach((word, wordIndex) => allNotes.push({...}))\<close>:
  \<open>wordIndex\<close> counts up from the given value and each note is appended to
  \<open>allNotes\<close>. The function \<open>translateWord\<close> is imported from the dictionary
  module and is a parameter here.
\<close>

fun words_forEach ::
  "(string \<Rightarrow> string) \<Rightarrow> nat \<Rightarrow> KaraokeWord list \<Rightarrow> nat \<Rightarrow> Note list \<Rightarrow> Note list" where
  "words_forEach translateWord lineIndex [] wordIndex allNotes = allNotes"
| "words_forEach translateWord lineIndex (word # rest) wordIndex allNotes =
     words_forEach translateWord lineIndex rest (Suc wordIndex)
       (allNotes @
         [\<lparr> note_text = word_text word,
            english = translateWord (word_text word),
            timestamp = word_timestamp word,
            duration = word_duration word,
            lane = (lineIndex + wordIndex) mod 4,
            hit = False,
            note_id = string_of_nat lineIndex @ ''-'' @ string_of_nat wordIndex \<rparr>])"

text \<open>The outer \<open>timingData.lyrics.forEach((line, lineIndex) => ...)\<close>.\<close>

fun lyrics_forEach ::
  "(string \<Rightarrow> string) \<Rightarrow> KaraokeLine list \<Rightarrow> nat \<Rightarrow> Note list \<Rightarrow> Note list" where
  "lyrics_forEach translateWord [] lineIndex allNotes = allNotes"
| "lyrics_forEach translateWord (line # rest) lineIndex allNotes =
     lyrics_forEach translateWord rest (Suc lineIndex)
       (words_forEach translateWord lineIndex (words line) 0 allNotes)"

text \<open>\<open>Array.prototype.filter\<close> with a callback that looks at the index only.\<close>

fun filter_index :: "(nat \<Rightarrow> bool) \<Rightarrow> 'a list \<Rightarrow> nat \<Rightarrow> 'a list" where
  "filter_index p [] index = []"
| "filter_index p (x # xs) index =
     (if p index then x # filter_index p xs (Suc index) else filter_index p xs (Suc index))"

text \<open>The callback of the difficulty filter, with its branches in the source's order.\<close>

definition difficulty_keeps :: "int \<Rightarrow> nat \<Rightarrow> bool" where
  "difficulty_keeps difficulty index =
     (if difficulty = 5 then True
      else if difficulty = 4 then index mod 4 \<noteq> 3
      else if difficulty = 3 then index mod 2 = 0
      else if difficulty = 2 then index mod 3 = 0
      else index mod 5 = 0)"

text \<open>\<open>timingData\<close> is \<open>None\<close> while the timing file has not been loaded.\<close>

definition createNotes ::
  "(string \<Rightarrow> string) \<Rightarrow> TimingData option \<Rightarrow> int \<Rightarrow> Note list" where
  "createNotes translateWord timingData difficulty =
     (case timingData of
        None \<Rightarrow> []
      | Some td \<Rightarrow>
          filter_index (difficulty_keeps difficulty)
            (lyrics_forEach translateWord (lyrics td) 0 []) 0)"

subsection \<open>The reference definition of note generation, in the specification's words\<close>

text \<open>
  Flatten all words of all lines in (line, word) order; each note gets lane
  \<open>(lineIndex + wordIndex) mod 4\<close>, id \<open><lineIndex>-<wordIndex>\<close> and \<open>hit = false\<close>.
\<close>

definition spec_note :: "(string \<Rightarrow> string) \<Rightarrow> nat \<Rightarrow> nat \<times> KaraokeWord \<Rightarrow> Note" where
  "spec_note tr li p =
     \<lparr> note_text = word_text (snd p), english = tr (word_text (snd p)),
       timestamp = word_timestamp (snd p), duration = word_duration (snd p),
       lane = (li + fst p) mod 4, hit = False,
       note_id = string_of_nat li @ ''-'' @ string_of_nat (fst p) \<rparr>"

definition spec_flatten :: "(string \<Rightarrow> string) \<Rightarrow> KaraokeLine list \<Rightarrow> Note list" where
  "spec_flatten tr ls =
     concat (map (\<lambda>p. map (spec_note tr (fst p)) (enumerate 0 (words (snd p))))
                 (enumerate 0 ls))"

text \<open>The flattened indices that a difficulty keeps, as the specification's table gives them.\<close>

definition spec_selected :: "int \<Rightarrow> nat set" where
  "spec_selected d =
     {i. d = 5 \<or> (d = 4 \<and> i mod 4 \<noteq> 3) \<or> (d = 3 \<and> even i) \<or> (d = 2 \<and> 3 dvd i)
         \<or> (d = 1 \<and> 5 dvd i)}"

definition spec_generate :: "(string \<Rightarrow> string) \<Rightarrow> KaraokeLine list \<Rightarrow> int \<Rightarrow> Note list" where
  "spec_generate tr ls d = nths (spec_flatten tr ls) (spec_selected d)"

subsection \<open>startGame\<close>

text \<open>
  \<open>startGame\<close> returns at once while \<open>timingData\<close> is missing; otherwise it stores
  the notes of \<open>createNotes\<close> and zeroes the four counters.
\<close>

definition startGame ::
  "(string \<Rightarrow> string) \<Rightarrow> TimingData option \<Rightarrow> int \<Rightarrow> GameState \<Rightarrow> GameState" where
  "startGame translateWord timingData difficulty s =
     (case timingData of
        None \<Rightarrow> s
      | Some td \<Rightarrow>
          \<lparr> notesRef = createNotes translateWord timingData difficulty,
            scoreRef = 0, comboRef = 0, maxComboRef = 0, totalHitsRef = 0 \<rparr>)"

subsection \<open>Judging one press (handleKey lines 353-394, handleTouch lines 424-464)\<close>

text \<open>The calls into the presentation code that a handler makes, in the order it makes them.\<close>

datatype effect =
  ShowLanePress nat
| ShowHitEffect nat string string
| CheckEncouragement nat

text \<open>
  \<open>notesRef.current.filter(...)\<close> returns references to the note objects, and the
  handler later writes \<open>closest.hit = true\<close> through one of them. A reference is
  modelled as the position of the note in \<open>notesRef.current\<close>.
\<close>

definition candidates :: "nat \<Rightarrow> rat \<Rightarrow> Note list \<Rightarrow> nat list" where
  "candidates l currentTime ns =
     filter (\<lambda>n. lane (ns ! n) = l \<and> \<not> hit (ns ! n)
                 \<and> \<bar>dsub (timestamp (ns ! n)) currentTime\<bar> \<le> HIT_WINDOWS_MISS)
            [0..<length ns]"

text \<open>The callback of \<open>candidates.reduce((a, b) => ... ? a : b)\<close>.\<close>

definition closer :: "rat \<Rightarrow> Note list \<Rightarrow> nat \<Rightarrow> nat \<Rightarrow> nat" where
  "closer currentTime ns a b =
     (if \<bar>dsub (timestamp (ns ! a)) currentTime\<bar> < \<bar>dsub (timestamp (ns ! b)) currentTime\<bar>
      then a else b)"

text \<open>
  The note that a press judges: \<open>None\<close> where the handler leaves at
  \<open>candidates.length === 0\<close>; otherwise \<open>reduce\<close> without an initial value starts from the
  first candidate and folds the callback over the others from left to right.
\<close>

definition closest :: "nat \<Rightarrow> rat \<Rightarrow> Note list \<Rightarrow> nat option" where
  "closest l currentTime ns =
     (case candidates l currentTime ns of
        [] \<Rightarrow> None
      | c # cs \<Rightarrow> Some (foldl (closer currentTime ns) c cs))"

text \<open>
  The three branches on \<open>timeDelta\<close>, giving \<open>(judgment, points, judgmentColor)\<close>. The
  label is shown in Spanish when \<open>showTranslations\<close> is off.
\<close>

definition classify :: "bool \<Rightarrow> rat \<Rightarrow> string \<times> nat \<times> string" where
  "classify showTranslations timeDelta =
     (if timeDelta \<le> HIT_WINDOWS_PERFECT then
        (if showTranslations then ''PERFECT'' else ''PERFECTO'', 25, ''text-yellow-300'')
      else if timeDelta \<le> HIT_WINDOWS_GOOD then
        (if showTranslations then ''GOOD'' else ''BIEN'', 25, ''text-green-300'')
      else (''OK'', 25, ''text-blue-300''))"

text \<open>
  The statements from the candidate filter to \<open>checkEncouragement\<close>, which are the same
  in both handlers. The result is the new state and the effects of this press after
  \<open>showLanePress\<close>.
\<close>

definition judge :: "bool \<Rightarrow> nat \<Rightarrow> rat \<Rightarrow> GameState \<Rightarrow> GameState \<times> effect list" where
  "judge showTranslations l currentTime s =
     (case closest l currentTime (notesRef s) of
        None \<Rightarrow> (s, [])
      | Some c \<Rightarrow>
          (let timeDelta = \<bar>dsub (timestamp (notesRef s ! c)) currentTime\<bar>;
               (judgment, points, judgmentColor) = classify showTranslations timeDelta;
               s1 = s\<lparr>notesRef := (notesRef s)[c := (notesRef s ! c)\<lparr>hit := True\<rparr>]\<rparr>;
               s2 = s1\<lparr>scoreRef := scoreRef s1 + points\<rparr>;
               s3 = s2\<lparr>comboRef := comboRef s2 + 1\<rparr>;
               s4 = s3\<lparr>totalHitsRef := totalHitsRef s3 + 1\<rparr>;
               s5 = s4\<lparr>maxComboRef := max (maxComboRef s4) (comboRef s4)\<rparr>
           in (s5, [ShowHitEffect l judgment judgmentColor, CheckEncouragement (comboRef s5)])))"

subsection \<open>showHitEffect\<close>

text \<open>
  \<open>showHitEffect(lane, judgment, color)\<close> is not given the judged note. For the text on
  the coin it looks the note up again (lines 548-555): the first note of
  \<open>notesRef.current\<close> in the lane that is hit and within \<open>HIT_WINDOWS.MISS + 0.1\<close> of
  the current time, which is 0 without an audio element. \<open>container\<close> tells whether
  \<open>fallingRef.current\<close> is set; without it the function returns at once.
\<close>

definition showHitEffect_hitNote :: "bool \<Rightarrow> nat \<Rightarrow> rat option \<Rightarrow> Note list \<Rightarrow> Note option" where
  "showHitEffect_hitNote container l audio ns =
     (if \<not> container then None
      else
        (let currentTime = (case audio of None \<Rightarrow> 0 | Some t \<Rightarrow> t)
         in find (\<lambda>n. lane n = l \<and> hit n
                        \<and> \<bar>dsub (timestamp n) currentTime\<bar>
                            \<le> dadd HIT_WINDOWS_MISS (dbl (1 / 10)))
                 ns))"

subsection \<open>handleKey\<close>

definition laneMap :: "string \<Rightarrow> nat option" where
  "laneMap key =
     (if key = ''ArrowLeft'' then Some 0
      else if key = ''ArrowDown'' then Some 1
      else if key = ''ArrowUp'' then Some 2
      else if key = ''ArrowRight'' then Some 3
      else None)"

text \<open>
  \<open>audio\<close> is the value of \<open>audioRef.current.currentTime\<close>, or \<open>None\<close> when
  \<open>audioRef.current\<close> is null.
\<close>

definition handleKey ::
  "bool \<Rightarrow> string \<Rightarrow> rat option \<Rightarrow> GameState \<Rightarrow> GameState \<times> effect list" where
  "handleKey showTranslations key audio s =
     (case laneMap key of
        None \<Rightarrow> (s, [])
      | Some l \<Rightarrow>
          (case audio of
             None \<Rightarrow> (s, [ShowLanePress l])
           | Some currentTime \<Rightarrow>
               (let (s', es) = judge showTranslations l currentTime s
                in (s', ShowLanePress l # es))))"

subsection \<open>handleTouch\<close>

text \<open>
  The loop over \<open>e.changedTouches\<close>. Each touch is given by the integer that
  \<open>Math.floor((x / rect.width) * 4)\<close> yields for it; a touch outside lanes 0 to 3 is
  skipped, a missing audio element ends the handler, and a touch without candidates
  continues with the next one. The playback position does not advance while a handler
  runs, so all touches of one event read the same \<open>currentTime\<close>.
\<close>

fun handleTouch_loop ::
  "bool \<Rightarrow> int list \<Rightarrow> rat option \<Rightarrow> GameState \<Rightarrow> effect list \<Rightarrow> GameState \<times> effect list" where
  "handleTouch_loop showTranslations [] audio s es = (s, es)"
| "handleTouch_loop showTranslations (l # touches) audio s es =
     (if l < 0 \<or> l > 3 then handleTouch_loop showTranslations touches audio s es
      else
        (case audio of
           None \<Rightarrow> (s, es @ [ShowLanePress (nat l)])
         | Some currentTime \<Rightarrow>
             (let (s', es') = judge showTranslations (nat l) currentTime s
              in handleTouch_loop showTranslations touches audio s'
                   (es @ ShowLanePress (nat l) # es'))))"

text \<open>\<open>container\<close> tells whether \<open>containerRef.current\<close> is set.\<close>

definition handleTouch ::
  "bool \<Rightarrow> bool \<Rightarrow> int list \<Rightarrow> rat option \<Rightarrow> GameState \<Rightarrow> GameState \<times> effect list" where
  "handleTouch showTranslations container touches audio s =
     (if \<not> container then (s, [])
      else handleTouch_loop showTranslations touches audio s [])"

subsection \<open>The auto-miss sweep of the render loop (lines 224-275)\<close>

text \<open>
  One iteration of \<open>notesRef.current.forEach((note) => ...)\<close> for the note at position
  \<open>n\<close>; drawing the note is outside the model.
\<close>

definition autoMiss_note :: "rat \<Rightarrow> GameState \<Rightarrow> nat \<Rightarrow> GameState" where
  "autoMiss_note currentTime s n =
     (let note = notesRef s ! n in
      if \<not> hit note then
        (if currentTime > dadd (timestamp note) HIT_WINDOWS_MISS
         then s\<lparr>notesRef := (notesRef s)[n := note\<lparr>hit := True\<rparr>], comboRef := 0\<rparr>
         else s)
      else s)"

definition autoMiss :: "rat \<Rightarrow> GameState \<Rightarrow> GameState" where
  "autoMiss currentTime s = foldl (autoMiss_note currentTime) s [0..<length (notesRef s)]"

text \<open>
  The test that makes an iteration mark its note as missed, and the note after the
  iteration; the sweep is characterised through them below.
\<close>

definition expired :: "rat \<Rightarrow> Note \<Rightarrow> bool" where
  "expired currentTime note \<longleftrightarrow>
     \<not> hit note \<and> currentTime > dadd (timestamp note) HIT_WINDOWS_MISS"

definition swept :: "rat \<Rightarrow> Note \<Rightarrow> Note" where
  "swept currentTime note = (if expired currentTime note then note\<lparr>hit := True\<rparr> else note)"

text \<open>
  \<open>render\<close>: \<open>audio\<close> is \<open>None\<close> when the audio element is missing or paused,
  \<open>container\<close> tells whether \<open>fallingRef.current\<close> is set; in both cases the frame
  returns before the sweep. The check for the end of the song that follows the sweep
  writes to the audio element and to \<open>gameState\<close> only and is left out.
\<close>

definition render :: "rat option \<Rightarrow> bool \<Rightarrow> GameState \<Rightarrow> GameState" where
  "render audio container s =
     (case audio of
        None \<Rightarrow> s
      | Some currentTime \<Rightarrow> (if \<not> container then s else autoMiss currentTime s))"

subsection \<open>getGrade\<close>

text \<open>
  The percentage is a quotient of two counters and is kept exact: for every number of
  notes that an array can hold, the double computation \<open>(totalHits / total) * 100\<close>
  compares with the twelve thresholds as the exact quotient does.
\<close>

definition getGrade :: "GameState \<Rightarrow> string \<times> string" where
  "getGrade s =
     (let total = length (notesRef s) in
      if total = 0 then (''F'', ''text-red-400'')
      else
        (let pct = (of_nat (totalHitsRef s) / of_nat total) * (100 :: rat) in
         if pct \<ge> 97 then (''A+'', ''text-yellow-300'')
         else if pct \<ge> 93 then (''A'', ''text-yellow-400'')
         else if pct \<ge> 90 then (''A-'', ''text-yellow-500'')
         else if pct \<ge> 87 then (''B+'', ''text-green-300'')
         else if pct \<ge> 83 then (''B'', ''text-green-400'')
         else if pct \<ge> 80 then (''B-'', ''text-green-500'')
         else if pct \<ge> 77 then (''C+'', ''text-blue-300'')
         else if pct \<ge> 73 then (''C'', ''text-blue-400'')
         else if pct \<ge> 70 then (''C-'', ''text-blue-500'')
         else if pct \<ge> 67 then (''D+'', ''text-orange-300'')
         else if pct \<ge> 63 then (''D'', ''text-orange-400'')
         else if pct \<ge> 60 then (''D-'', ''text-orange-500'')
         else (''F'', ''text-red-400'')))"

text \<open>The letter for a percentage, as the specification's threshold list gives it.\<close>

definition spec_grade :: "rat \<Rightarrow> string" where
  "spec_grade p =
     (if p \<ge> 97 then ''A+'' else if p \<ge> 93 then ''A'' else if p \<ge> 90 then ''A-''
      else if p \<ge> 87 then ''B+'' else if p \<ge> 83 then ''B'' else if p \<ge> 80 then ''B-''
      else if p \<ge> 77 then ''C+'' else if p \<ge> 73 then ''C'' else if p \<ge> 70 then ''C-''
      else if p \<ge> 67 then ''D+'' else if p \<ge> 63 then ''D'' else if p \<ge> 60 then ''D-''
      else ''F'')"

subsection \<open>Session executions\<close>

text \<open>
  What happens during a session: key presses, touch events and animation frames, each
  with the values it reads from the audio element and the container, in any order.
\<close>

datatype event =
  KeyDown bool string "rat option"
| TouchStart bool bool "int list" "rat option"
| Frame "rat option" bool

fun step :: "event \<Rightarrow> GameState \<Rightarrow> GameState" where
  "step (KeyDown showTranslations key audio) s = fst (handleKey showTranslations key audio s)"
| "step (TouchStart showTranslations container touches audio) s =
     fst (handleTouch showTranslations container touches audio s)"
| "step (Frame audio container) s = render audio container s"

fun run :: "event list \<Rightarrow> GameState \<Rightarrow> GameState" where
  "run [] s = s"
| "run (e # es) s = run es (step e s)"

text \<open>
  How often the \<open>hit\<close> flag of the note at position \<open>n\<close> goes from false to true
  along an execution.
\<close>

fun flips :: "nat \<Rightarrow> event list \<Rightarrow> GameState \<Rightarrow> nat" where
  "flips n [] s = 0"
| "flips n (e # es) s =
     (if \<not> hit (notesRef s ! n) \<and> hit (notesRef (step e s) ! n) then 1 else 0)
       + flips n es (step e s)"

subsection \<open>Example data\<close>

definition word_at :: "string \<Rightarrow> rat \<Rightarrow> KaraokeWord" where
  "word_at w t = \<lparr> word_id = 0, word_text = w, word_duration = 1 / 2, word_timestamp = t \<rparr>"

text \<open>A track of two lines, with two and three words.\<close>

definition two_lines :: TimingData where
  "two_lines =
     \<lparr> songNumber = 1, title = ''uno'', audioUrl = ''/audio/1.mp3'',
       lyrics = [\<lparr> line_id = 0, words = [word_at ''la'' 1, word_at ''luna'' 2] \<rparr>,
                 \<lparr> line_id = 1, words = [word_at ''el'' 3, word_at ''sol'' 4, word_at ''y'' 5] \<rparr>] \<rparr>"

text \<open>A track of one line with four words at 1.0, 1.0, 2.0 and 2.0 seconds.\<close>

definition four_words :: "string \<Rightarrow> TimingData" where
  "four_words w =
     \<lparr> songNumber = 2, title = ''dos'', audioUrl = ''/audio/2.mp3'',
       lyrics = [\<lparr> line_id = 0,
                   words = [word_at w 1, word_at w 1, word_at w 2, word_at w 2] \<rparr>] \<rparr>"

text \<open>
  A track of one line with five words; the first and the fifth fall into lane 0, at 1.0 and
  1.5 seconds.
\<close>

definition five_words :: TimingData where
  "five_words =
     \<lparr> songNumber = 3, title = ''tres'', audioUrl = ''/audio/3.mp3'',
       lyrics = [\<lparr> line_id = 0,
                   words = [word_at ''a'' 1, word_at ''b'' (dbl (11 / 10)),
                            word_at ''c'' (dbl (12 / 10)), word_at ''d'' (dbl (13 / 10)),
                            word_at ''e'' (3 / 2)] \<rparr>] \<rparr>"

text \<open>
  A track of one line with five quick words; the first and the fifth fall into lane 0, at
  1.0 and 1.05 seconds.
\<close>

definition quick_words :: TimingData where
  "quick_words =
     \<lparr> songNumber = 4, title = ''cuatro'', audioUrl = ''/audio/4.mp3'',
       lyrics = [\<lparr> line_id = 0,
                   words = [word_at ''uno'' 1, word_at ''y'' (dbl (101 / 100)),
                            word_at ''o'' (dbl (102 / 100)), word_at ''a'' (dbl (103 / 100)),
                            word_at ''dos'' (dbl (105 / 100))] \<rparr>] \<rparr>"

definition note_at :: "string \<Rightarrow> nat \<Rightarrow> rat \<Rightarrow> Note" where
  "note_at i l t =
     \<lparr> note_text = ''la'', english = ''the'', timestamp = t, duration = 1 / 2,
       lane = l, hit = False, note_id = i \<rparr>"

text \<open>The reference cells as the component creates them.\<close>

definition mounted :: GameState where
  "mounted = \<lparr> notesRef = [], scoreRef = 0, comboRef = 0, maxComboRef = 0, totalHitsRef = 0 \<rparr>"

text \<open>Two notes in lane 0, at 1.0 and 1.05 seconds, and no points yet.\<close>

definition two_close :: GameState where
  "two_close =
     \<lparr> notesRef = [note_at ''0-0'' 0 1, note_at ''0-4'' 0 (dbl (105 / 100))],
       scoreRef = 0, comboRef = 0, maxComboRef = 0, totalHitsRef = 0 \<rparr>"

text \<open>A session with a single note in lane 0, at the given time.\<close>

definition one_note :: "rat \<Rightarrow> GameState" where
  "one_note t =
     \<lparr> notesRef = [note_at ''0-0'' 0 t],
       scoreRef = 0, comboRef = 0, maxComboRef = 0, totalHitsRef = 0 \<rparr>"

text \<open>Two notes in lane 0, at 1.0 and 1.3 seconds.\<close>

definition two_apart :: GameState where
  "two_apart =
     \<lparr> notesRef = [note_at ''0-0'' 0 1, note_at ''0-4'' 0 (dbl (13 / 10))],
       scoreRef = 0, comboRef = 0, maxComboRef = 0, totalHitsRef = 0 \<rparr>"

text \<open>
  A session under way: the first note was hit, two notes are still to come.
\<close>

definition mid_game :: GameState where
  "mid_game =
     \<lparr> notesRef = [(note_at ''0-0'' 0 (1 / 2))\<lparr>hit := True\<rparr>, note_at ''0-1'' 1 1,
                   note_at ''0-2'' 2 2],
       scoreRef = 25, comboRef = 1, maxComboRef = 1, totalHitsRef = 1 \<rparr>"

text \<open>A finished session of one hundred notes, \<open>h\<close> of them hit by the player.\<close>

definition hundred_notes :: "nat \<Rightarrow> GameState" where
  "hundred_notes h =
     \<lparr> notesRef = replicate 100 ((note_at ''0-0'' 0 1)\<lparr>hit := True\<rparr>),
       scoreRef = 25 * h, comboRef = 0, maxComboRef = h, totalHitsRef = h \<rparr>"

section \<open>Rounding to a double\<close>

text \<open>
  What the proofs below use of \<open>dbl\<close>: it is monotone, and it leaves a number alone
  that has a significand of at most 53 bits.
\<close>

lemma pow2_pos: "0 < (2 :: rat) powi e"
  by (simp add: zero_less_power_int)

lemma pow2_less_cancel: "(2 :: rat) powi a < 2 powi b \<Longrightarrow> a < b"
  using power_int_increasing [of b a "2 :: rat"] by (cases "a < b") auto

lemma pow2_nat: "0 \<le> k \<Longrightarrow> (2 :: rat) powi k = 2 ^ nat k"
  by (simp add: power_int_def)

lemma pow2_neg_nat: "0 \<le> k \<Longrightarrow> (2 :: rat) powi (- k) = 1 / 2 ^ nat k"
  by (simp add: power_int_minus_divide pow2_nat)

lemma ilog2_bounds:
  assumes "0 < x"
  shows "2 powi ilog2 x \<le> x" and "x < 2 powi (ilog2 x + 1)"
proof -
  have "2 powi ilog2 x \<le> x \<and> x < 2 powi (ilog2 x + 1)"
  proof (cases "1 \<le> x")
    case True
    let ?n = "\<lfloor>x\<rfloor>"
    from True have n: "0 < ?n" by simp
    from bitlen_bounds [OF n]
    have lo: "2 ^ nat (bitlen ?n - 1) \<le> ?n" and hi: "?n < 2 ^ nat (bitlen ?n)" by simp_all
    from n have b1: "1 \<le> bitlen ?n"
      using bitlen_eq_zero_iff [of ?n] bitlen_nonneg [of ?n] by linarith
    have i: "ilog2 x = bitlen ?n - 1" using True by (simp add: ilog2_def)
    from lo have "(of_int (2 ^ nat (bitlen ?n - 1)) :: rat) \<le> of_int ?n"
      by (simp only: of_int_le_iff)
    then have "(2 :: rat) ^ nat (bitlen ?n - 1) \<le> of_int ?n" by simp
    also have "\<dots> \<le> x" by simp
    finally have 1: "2 powi ilog2 x \<le> x"
      using b1 by (simp add: i pow2_nat)
    from hi have "?n + 1 \<le> 2 ^ nat (bitlen ?n)" by simp
    then have "(of_int (?n + 1) :: rat) \<le> of_int (2 ^ nat (bitlen ?n))"
      by (simp only: of_int_le_iff)
    then have "of_int ?n + 1 \<le> (2 :: rat) ^ nat (bitlen ?n)" by simp
    moreover have "x < of_int ?n + 1" by linarith
    ultimately have "x < 2 ^ nat (bitlen ?n)" by simp
    then have 2: "x < 2 powi (ilog2 x + 1)"
      using b1 by (simp add: i pow2_nat)
    from 1 2 show ?thesis ..
  next
    case False
    with assms have x1: "x < 1" by simp
    let ?y = "1 / x"
    let ?n = "\<lceil>?y\<rceil>"
    from assms x1 have y1: "1 < ?y" by simp
    then have "1 < ?n" by (simp add: less_ceiling_iff)
    then have n: "0 < ?n - 1" by simp
    let ?j = "bitlen (?n - 1)"
    from bitlen_bounds [OF n]
    have lo: "2 ^ nat (?j - 1) \<le> ?n - 1" and hi: "?n - 1 < 2 ^ nat ?j" by simp_all
    from n have j1: "1 \<le> ?j"
      using bitlen_eq_zero_iff [of "?n - 1"] bitlen_nonneg [of "?n - 1"] by linarith
    have i: "ilog2 x = - ?j" using False by (simp add: ilog2_def)
    from hi have "?n \<le> 2 ^ nat ?j" by simp
    then have "(of_int ?n :: rat) \<le> of_int (2 ^ nat ?j)" by (simp only: of_int_le_iff)
    then have "(of_int ?n :: rat) \<le> 2 ^ nat ?j" by simp
    moreover have "?y \<le> of_int ?n" by simp
    ultimately have "?y \<le> 2 ^ nat ?j" by (rule order_trans [rotated])
    with assms have "1 \<le> 2 ^ nat ?j * x"
      by (simp add: divide_le_eq)
    then have "1 / 2 ^ nat ?j \<le> x"
      by (simp add: divide_le_eq mult.commute)
    then have 1: "2 powi ilog2 x \<le> x"
      using j1 by (simp add: i pow2_neg_nat)
    from lo have "(of_int (2 ^ nat (?j - 1)) :: rat) \<le> of_int (?n - 1)"
      by (simp only: of_int_le_iff)
    then have "(2 :: rat) ^ nat (?j - 1) \<le> of_int ?n - 1" by simp
    moreover have "of_int ?n - 1 < ?y" by linarith
    ultimately have "(2 :: rat) ^ nat (?j - 1) < ?y" by simp
    with assms have "2 ^ nat (?j - 1) * x < 1"
      by (simp add: less_divide_eq)
    then have "x < 1 / 2 ^ nat (?j - 1)"
      by (simp add: less_divide_eq mult.commute)
    moreover have "(2 :: rat) powi (- ?j + 1) = 1 / 2 ^ nat (?j - 1)"
      using pow2_neg_nat [of "?j - 1"] j1 by simp
    ultimately have 2: "x < 2 powi (ilog2 x + 1)"
      by (simp add: i)
    from 1 2 show ?thesis ..
  qed
  then show "2 powi ilog2 x \<le> x" and "x < 2 powi (ilog2 x + 1)" by simp_all
qed

lemma ilog2_less: "0 < x \<Longrightarrow> x < 2 powi k \<Longrightarrow> ilog2 x < k"
  using ilog2_bounds(1) [of x] pow2_less_cancel [of "ilog2 x" k] by simp

lemma ilog2_mono: "0 < x \<Longrightarrow> x \<le> y \<Longrightarrow> ilog2 x \<le> ilog2 y"
  using ilog2_less [of x "ilog2 y + 1"] ilog2_bounds(2) [of y] by simp

lemma round_even_of_int: "round_even (of_int k) = k"
  by (simp add: round_even_def)

lemma round_even_mono: "y \<le> z \<Longrightarrow> round_even y \<le> round_even z"
proof -
  assume yz: "y \<le> z"
  then have f: "\<lfloor>y\<rfloor> \<le> \<lfloor>z\<rfloor>" by (rule floor_mono)
  have ry: "\<lfloor>y\<rfloor> \<le> round_even y" "round_even y \<le> \<lfloor>y\<rfloor> + 1"
    and rz: "\<lfloor>z\<rfloor> \<le> round_even z" "round_even z \<le> \<lfloor>z\<rfloor> + 1"
    by (simp_all add: round_even_def Let_def)
  show ?thesis
  proof (cases "\<lfloor>y\<rfloor> = \<lfloor>z\<rfloor>")
    case False
    with f ry rz show ?thesis by linarith
  next
    case True
    with yz show ?thesis
      by (auto simp: round_even_def Let_def)
  qed
qed

lemma dbl_pos:
  "0 < x \<Longrightarrow>
   dbl x = of_int (round_even (x / 2 powi max (ilog2 x - 52) (- 1074)))
            * 2 powi max (ilog2 x - 52) (- 1074)"
  by (simp add: dbl_def Let_def)

lemma dbl_minus: "dbl (- x) = - dbl x"
  by (simp add: dbl_def Let_def)

lemma dbl_0: "dbl 0 = 0"
  by (simp add: dbl_def)

lemma round_even_nonneg: "0 \<le> y \<Longrightarrow> 0 \<le> round_even y"
  using round_even_mono [of 0 y] round_even_of_int [of 0] by simp

lemma dbl_nonneg: "0 \<le> x \<Longrightarrow> 0 \<le> dbl x"
proof (cases "x = 0")
  case True
  then show ?thesis by (simp add: dbl_0)
next
  case False
  assume "0 \<le> x"
  with False have x: "0 < x" by simp
  have "0 \<le> x / 2 powi max (ilog2 x - 52) (- 1074)"
    using x pow2_pos by (simp add: less_imp_le)
  then have "0 \<le> round_even (x / 2 powi max (ilog2 x - 52) (- 1074))"
    by (rule round_even_nonneg)
  then show ?thesis
    using pow2_pos [of "max (ilog2 x - 52) (- 1074)"] by (simp add: dbl_pos [OF x])
qed

lemma dbl_mono_pos:
  assumes x: "0 < x" and xy: "x \<le> y"
  shows "dbl x \<le> dbl y"
proof -
  from x xy have y: "0 < y" by simp
  let ?ex = "max (ilog2 x - 52) (- 1074)"
  let ?ey = "max (ilog2 y - 52) (- 1074)"
  have e: "?ex \<le> ?ey" using ilog2_mono [OF x xy] by simp
  show ?thesis
  proof (cases "?ex = ?ey")
    case True
    have "x / 2 powi ?ey \<le> y / 2 powi ?ey"
      using xy pow2_pos [of ?ey] by (simp add: divide_right_mono less_imp_le)
    then have "round_even (x / 2 powi ?ey) \<le> round_even (y / 2 powi ?ey)"
      by (rule round_even_mono)
    then have "(of_int (round_even (x / 2 powi ?ey)) :: rat)
                 \<le> of_int (round_even (y / 2 powi ?ey))"
      by (simp only: of_int_le_iff)
    then have "(of_int (round_even (x / 2 powi ?ey)) :: rat) * 2 powi ?ey
                 \<le> of_int (round_even (y / 2 powi ?ey)) * 2 powi ?ey"
      using pow2_pos [of ?ey] by (simp add: mult_right_mono less_imp_le)
    then show ?thesis
      unfolding dbl_pos [OF x] dbl_pos [OF y] True .
  next
    case False
    with e have lt: "?ex + 1 \<le> ?ey" by simp
    then have ey: "?ey = ilog2 y - 52" by simp
    \<comment> \<open>the significand of x is at most 2^53\<close>
    have "x < 2 powi (ilog2 x + 1)" by (rule ilog2_bounds(2) [OF x])
    also have "\<dots> \<le> 2 powi (?ex + 53)"
      by (rule power_int_increasing) simp_all
    also have "\<dots> = 2 powi ?ex * 2 ^ 53"
      by (simp add: power_int_add)
    finally have "x / 2 powi ?ex \<le> 2 ^ 53"
      using pow2_pos [of ?ex] by (simp add: divide_le_eq mult.commute less_imp_le)
    then have "round_even (x / 2 powi ?ex) \<le> round_even (of_int (2 ^ 53))"
      by (intro round_even_mono) simp
    then have "round_even (x / 2 powi ?ex) \<le> 2 ^ 53"
      by (simp only: round_even_of_int)
    then have "(of_int (round_even (x / 2 powi ?ex)) :: rat) \<le> of_int (2 ^ 53)"
      by (simp only: of_int_le_iff)
    then have "dbl x \<le> 2 ^ 53 * 2 powi ?ex"
      using pow2_pos [of ?ex] by (simp add: dbl_pos [OF x] mult_right_mono less_imp_le)
    also have "\<dots> = 2 powi (?ex + 53)"
      by (simp add: power_int_add)
    also have "\<dots> \<le> 2 powi (?ey + 52)"
      using lt by (intro power_int_increasing) simp_all
    also have "\<dots> = 2 ^ 52 * 2 powi ?ey"
      by (simp add: power_int_add)
    \<comment> \<open>the significand of y is at least 2^52\<close>
    also have "\<dots> \<le> dbl y"
    proof -
      have "2 powi (?ey + 52) \<le> y"
        using ilog2_bounds(1) [OF y] by (simp add: ey)
      then have "2 powi ?ey * 2 ^ 52 \<le> y"
        by (simp add: power_int_add)
      then have "2 ^ 52 \<le> y / 2 powi ?ey"
        using pow2_pos [of ?ey] by (simp add: le_divide_eq mult.commute)
      then have "round_even (of_int (2 ^ 52)) \<le> round_even (y / 2 powi ?ey)"
        by (intro round_even_mono) simp
      then have "2 ^ 52 \<le> round_even (y / 2 powi ?ey)"
        by (simp only: round_even_of_int)
      then have "(of_int (2 ^ 52) :: rat) \<le> of_int (round_even (y / 2 powi ?ey))"
        by (simp only: of_int_le_iff)
      then show ?thesis
        using pow2_pos [of ?ey] by (simp add: dbl_pos [OF y] mult_right_mono less_imp_le)
    qed
    finally show ?thesis .
  qed
qed

lemma dbl_mono: "x \<le> y \<Longrightarrow> dbl x \<le> dbl y"
proof -
  assume xy: "x \<le> y"
  consider "0 < x" | "x \<le> 0" "0 \<le> y" | "y < 0" by linarith
  then show ?thesis
  proof cases
    case 1
    then show ?thesis using xy by (rule dbl_mono_pos)
  next
    case 2
    have "dbl x \<le> 0" using dbl_nonneg [of "- x"] 2(1) by (simp add: dbl_minus)
    also have "0 \<le> dbl y" using 2(2) by (rule dbl_nonneg)
    finally show ?thesis .
  next
    case 3
    with xy have "0 < - y" "- y \<le> - x" by simp_all
    then have "dbl (- y) \<le> dbl (- x)" by (rule dbl_mono_pos)
    then show ?thesis by (simp add: dbl_minus)
  qed
qed

lemma cancel_scale: "0 < p \<Longrightarrow> q = k * p \<Longrightarrow> a * q / p = a * (k :: rat)"
  by simp

lemma dbl_double_pos:
  assumes m: "0 < m" "m < 2 ^ 53" and e: "- 1074 \<le> e"
  shows "dbl (of_int m * 2 powi e) = of_int m * 2 powi e"
proof -
  let ?x = "of_int m * 2 powi e :: rat"
  let ?E = "max (ilog2 ?x - 52) (- 1074)"
  have x: "0 < ?x" using m pow2_pos [of e] by simp
  have "(of_int m :: rat) < of_int (2 ^ 53)" using m by (simp only: of_int_less_iff)
  then have "?x < 2 ^ 53 * 2 powi e"
    using pow2_pos [of e] by simp
  also have "\<dots> = 2 powi (e + 53)" by (simp add: power_int_add)
  finally have "ilog2 ?x < e + 53" by (rule ilog2_less [OF x])
  with e have E: "?E \<le> e" by simp
  have "(2 :: rat) powi e = 2 powi (e - ?E) * 2 powi ?E"
    using power_int_add [of "2 :: rat" "e - ?E" ?E] by simp
  also have "(2 :: rat) powi (e - ?E) = 2 ^ nat (e - ?E)"
    using E by (simp add: pow2_nat)
  finally have "(2 :: rat) powi e = 2 ^ nat (e - ?E) * 2 powi ?E" .
  then have "?x / 2 powi ?E = of_int m * 2 ^ nat (e - ?E)"
    by (rule cancel_scale [OF pow2_pos])
  then have "?x / 2 powi ?E = of_int (m * 2 ^ nat (e - ?E))"
    by simp
  then have "round_even (?x / 2 powi ?E) = m * 2 ^ nat (e - ?E)"
    by (simp only: round_even_of_int)
  then have "dbl ?x = of_int (m * 2 ^ nat (e - ?E)) * 2 powi ?E"
    by (simp only: dbl_pos [OF x])
  also have "\<dots> = of_int m * (2 ^ nat (e - ?E) * 2 powi ?E)" by simp
  also have "(2 :: rat) ^ nat (e - ?E) * 2 powi ?E = 2 powi e"
    using E power_int_add [of "2 :: rat" "e - ?E" ?E] by (simp add: pow2_nat)
  finally show ?thesis .
qed

lemma dbl_exact:
  assumes m: "\<bar>m\<bar> < 2 ^ 53" and e: "- 1074 \<le> e"
  shows "dbl (of_int m * 2 powi e) = of_int m * 2 powi e"
proof -
  consider "m = 0" | "0 < m" | "m < 0" by linarith
  then show ?thesis
  proof cases
    case 1
    then show ?thesis by (simp add: dbl_0)
  next
    case 2
    with m e show ?thesis by (intro dbl_double_pos) simp_all
  next
    case 3
    with m e have "dbl (of_int (- m) * 2 powi e) = of_int (- m) * 2 powi e"
      by (intro dbl_double_pos) simp_all
    then have "dbl (- (of_int m * 2 powi e)) = - (of_int m * 2 powi e)" by simp
    then show ?thesis by (simp only: dbl_minus minus_minus neg_equal_iff_equal)
  qed
qed

lemma MISS_value: "HIT_WINDOWS_MISS = 1 / 4"
  by code_simp

lemma PERFECT_value: "HIT_WINDOWS_PERFECT = 5764607523034235 / 2 ^ 56"
  by code_simp

lemma GOOD_value: "HIT_WINDOWS_GOOD = 5404319552844595 / 2 ^ 55"
  by code_simp

section \<open>Note generation\<close>

lemma words_forEach_eq:
  "words_forEach tr li ws wi acc = acc @ map (spec_note tr li) (enumerate wi ws)"
  by (induction ws arbitrary: wi acc) (simp_all add: spec_note_def)

lemma lyrics_forEach_eq:
  "lyrics_forEach tr ls li acc =
     acc @ concat (map (\<lambda>p. map (spec_note tr (fst p)) (enumerate 0 (words (snd p))))
                       (enumerate li ls))"
  by (induction ls arbitrary: li acc) (simp_all add: words_forEach_eq)

lemma lyrics_forEach_flatten: "lyrics_forEach tr ls 0 [] = spec_flatten tr ls"
  by (simp add: lyrics_forEach_eq spec_flatten_def)

lemma filter_index_nths: "filter_index p xs i = nths xs {j. p (j + i)}"
  by (induction xs arbitrary: i) (simp_all add: nths_Cons)

lemma filter_index_subseq: "subseq (filter_index p xs i) xs"
  by (induction xs arbitrary: i) (auto intro: list_emb_Cons)

lemma filter_index_all: "(\<And>j. p j) \<Longrightarrow> filter_index p xs i = xs"
  by (induction xs arbitrary: i) simp_all

lemma difficulty_keeps_selected:
  assumes "1 \<le> d" and "d \<le> 5"
  shows "difficulty_keeps d i \<longleftrightarrow> i \<in> spec_selected d"
proof -
  from assms consider "d = 1" | "d = 2" | "d = 3" | "d = 4" | "d = 5" by linarith
  then show ?thesis
    by cases
      (simp_all add: difficulty_keeps_def spec_selected_def dvd_eq_mod_eq_0
        even_iff_mod_2_eq_zero)
qed

text \<open>
  C1. For every timing track and every difficulty from 1 to 5, \<open>createNotes\<close> returns
  what the reference definition returns: the flattened notes (lane
  \<open>(lineIndex + wordIndex) mod 4\<close>, id \<open><lineIndex>-<wordIndex>\<close>, not hit) at exactly the
  flattened indices that the difficulty selects. The result is a subsequence of the
  flattened list, and difficulty 5 returns the whole list.
\<close>

theorem createNotes_refines_spec:
  "1 \<le> d \<Longrightarrow> d \<le> 5 \<Longrightarrow>
     createNotes tr (Some td) d = spec_generate tr (lyrics td) d
   \<and> subseq (createNotes tr (Some td) d) (spec_flatten tr (lyrics td))
   \<and> createNotes tr (Some td) 5 = spec_flatten tr (lyrics td)"
proof (intro conjI)
  assume d: "1 \<le> d" "d \<le> 5"
  have "{j. difficulty_keeps d (j + 0)} = spec_selected d"
    using difficulty_keeps_selected [OF d] by auto
  then show "createNotes tr (Some td) d = spec_generate tr (lyrics td) d"
    by (simp add: createNotes_def spec_generate_def filter_index_nths lyrics_forEach_flatten)
  show "subseq (createNotes tr (Some td) d) (spec_flatten tr (lyrics td))"
    by (simp add: createNotes_def filter_index_subseq flip: lyrics_forEach_flatten)
  show "createNotes tr (Some td) 5 = spec_flatten tr (lyrics td)"
    by (simp add: createNotes_def lyrics_forEach_flatten filter_index_all difficulty_keeps_def)
qed

theorem createNotes_refines_spec_witness:
  "(1 :: int) \<le> 3 \<and> (3 :: int) \<le> 5
   \<and> createNotes (\<lambda>w. w) (Some two_lines) 3 = spec_generate (\<lambda>w. w) (lyrics two_lines) 3
   \<and> map note_id (spec_generate (\<lambda>w. w) (lyrics two_lines) 3) = [''0-0'', ''1-0'', ''1-2'']
   \<and> map lane (spec_generate (\<lambda>w. w) (lyrics two_lines) 3) = [0, 1, 3]"
proof -
  have r: "createNotes (\<lambda>w. w) (Some two_lines) 3 = spec_generate (\<lambda>w. w) (lyrics two_lines) 3"
    using createNotes_refines_spec [of 3 "\<lambda>w. w" two_lines] by simp
  have "map note_id (createNotes (\<lambda>w. w) (Some two_lines) 3) = [''0-0'', ''1-0'', ''1-2'']"
    by (simp add: createNotes_def two_lines_def word_at_def difficulty_keeps_def
        string_of_nat.simps)
  moreover have "map lane (createNotes (\<lambda>w. w) (Some two_lines) 3) = [0, 1, 3]"
    by (simp add: createNotes_def two_lines_def word_at_def difficulty_keeps_def)
  ultimately show ?thesis using r by simp
qed

section \<open>Judging a press\<close>

lemma candidates_iff:
  "n \<in> set (candidates l t ns) \<longleftrightarrow>
     n < length ns \<and> lane (ns ! n) = l \<and> \<not> hit (ns ! n)
     \<and> \<bar>dsub (timestamp (ns ! n)) t\<bar> \<le> HIT_WINDOWS_MISS"
  by (auto simp: candidates_def)

lemma sorted_candidates: "sorted (candidates l t ns)"
  by (simp add: candidates_def sorted_wrt_filter)

lemma closer_cases: "closer t ns a b = a \<or> closer t ns a b = b"
  by (simp add: closer_def)

lemma foldl_closer_mem: "foldl (closer t ns) c cs \<in> set (c # cs)"
  by (induction cs arbitrary: c) (auto simp: closer_def)

lemma closest_mem: "closest l t ns = Some c \<Longrightarrow> c \<in> set (candidates l t ns)"
  using foldl_closer_mem [of t ns]
  by (auto simp: closest_def split: list.splits)

lemma closest_None: "closest l t ns = None \<longleftrightarrow> candidates l t ns = []"
  by (simp add: closest_def split: list.splits)

lemma closest_in_window:
  "closest l t ns = Some c \<Longrightarrow>
     c < length ns \<and> lane (ns ! c) = l \<and> \<not> hit (ns ! c)
     \<and> \<bar>dsub (timestamp (ns ! c)) t\<bar> \<le> HIT_WINDOWS_MISS"
  using closest_mem [of l t ns c] by (simp add: candidates_iff)

lemma classify_points: "fst (snd (classify st d)) = 25"
  by (simp add: classify_def)

lemma judge_None: "closest l t (notesRef s) = None \<Longrightarrow> judge st l t s = (s, [])"
  by (simp add: judge_def)

lemma judge_Some:
  "closest l t (notesRef s) = Some c \<Longrightarrow>
   judge st l t s =
     (s\<lparr>notesRef := (notesRef s)[c := (notesRef s ! c)\<lparr>hit := True\<rparr>],
        scoreRef := scoreRef s + 25,
        comboRef := comboRef s + 1,
        totalHitsRef := totalHitsRef s + 1,
        maxComboRef := max (maxComboRef s) (comboRef s + 1)\<rparr>,
      [ShowHitEffect l (fst (classify st \<bar>dsub (timestamp (notesRef s ! c)) t\<bar>))
                       (snd (snd (classify st \<bar>dsub (timestamp (notesRef s ! c)) t\<bar>))),
       CheckEncouragement (comboRef s + 1)])"
  using classify_points [of st "\<bar>dsub (timestamp (notesRef s ! c)) t\<bar>"]
  by (cases "classify st \<bar>dsub (timestamp (notesRef s ! c)) t\<bar>")
     (simp add: judge_def Let_def)

lemma judge_notes:
  "notesRef (fst (judge st l t s)) =
     (case closest l t (notesRef s) of
        None \<Rightarrow> notesRef s
      | Some c \<Rightarrow> (notesRef s)[c := (notesRef s ! c)\<lparr>hit := True\<rparr>])"
  by (cases "closest l t (notesRef s)") (simp_all add: judge_None judge_Some)

lemma handleKey_judge:
  "laneMap key = Some l \<Longrightarrow>
   handleKey st key (Some t) s = (fst (judge st l t s), ShowLanePress l # snd (judge st l t s))"
  by (simp add: handleKey_def split_beta)

lemma laneMap_left: "laneMap ''ArrowLeft'' = Some 0"
  by (simp add: laneMap_def)

lemma two_close_closest: "closest 0 (dbl (103 / 100)) (notesRef two_close) = Some 1"
  by code_simp

subsection \<open>Tiers and points\<close>

text \<open>
  C2. The tier of a judged press depends only on the timing delta \<open>d\<close> of the selected
  note, which the handler computes as the absolute value of the double difference
  \<open>timestamp - currentTime\<close>: up to \<open>HIT_WINDOWS.PERFECT\<close> (the double 0.08) it is
  PERFECT, above that and up to \<open>HIT_WINDOWS.GOOD\<close> (the double 0.15) it is GOOD, above
  that and up to \<open>HIT_WINDOWS.MISS\<close> (0.25) it is OK; the labels PERFECT and GOOD are shown
  as PERFECTO and BIEN when translations are off. Every tier gives 25 points. Both
  handlers classify through these branches.
\<close>

theorem classify_tiers:
  "(d \<le> HIT_WINDOWS_PERFECT \<longrightarrow>
      classify st d = (if st then ''PERFECT'' else ''PERFECTO'', 25, ''text-yellow-300''))
   \<and> (HIT_WINDOWS_PERFECT < d \<and> d \<le> HIT_WINDOWS_GOOD \<longrightarrow>
      classify st d = (if st then ''GOOD'' else ''BIEN'', 25, ''text-green-300''))
   \<and> (HIT_WINDOWS_GOOD < d \<and> d \<le> HIT_WINDOWS_MISS \<longrightarrow>
      classify st d = (''OK'', 25, ''text-blue-300''))
   \<and> fst (snd (classify st d)) = 25
   \<and> (closest l t (notesRef s) = Some c \<longrightarrow>
        snd (judge st l t s) ! 0 =
          ShowHitEffect l (fst (classify st \<bar>dsub (timestamp (notesRef s ! c)) t\<bar>))
                          (snd (snd (classify st \<bar>dsub (timestamp (notesRef s ! c)) t\<bar>)))
        \<and> scoreRef (fst (judge st l t s)) = scoreRef s + 25)
   \<and> HIT_WINDOWS_PERFECT = 5764607523034235 / 2 ^ 56
   \<and> HIT_WINDOWS_GOOD = 5404319552844595 / 2 ^ 55
   \<and> HIT_WINDOWS_MISS = 1 / 4"
proof -
  have j: "snd (judge st l t s) ! 0 =
          ShowHitEffect l (fst (classify st \<bar>dsub (timestamp (notesRef s ! c)) t\<bar>))
                          (snd (snd (classify st \<bar>dsub (timestamp (notesRef s ! c)) t\<bar>)))
        \<and> scoreRef (fst (judge st l t s)) = scoreRef s + 25"
    if "closest l t (notesRef s) = Some c"
    by (simp add: judge_Some [OF that])
  have pg: "HIT_WINDOWS_PERFECT \<le> HIT_WINDOWS_GOOD"
    by (simp add: PERFECT_value GOOD_value)
  have c: "(d \<le> HIT_WINDOWS_PERFECT \<longrightarrow>
      classify st d = (if st then ''PERFECT'' else ''PERFECTO'', 25, ''text-yellow-300''))
   \<and> (HIT_WINDOWS_PERFECT < d \<and> d \<le> HIT_WINDOWS_GOOD \<longrightarrow>
      classify st d = (if st then ''GOOD'' else ''BIEN'', 25, ''text-green-300''))
   \<and> (HIT_WINDOWS_GOOD < d \<and> d \<le> HIT_WINDOWS_MISS \<longrightarrow>
      classify st d = (''OK'', 25, ''text-blue-300''))"
    using pg by (auto simp: classify_def)
  show ?thesis
    using j c classify_points PERFECT_value GOOD_value MISS_value by blast
qed

theorem classify_tiers_witness:
  "classify True HIT_WINDOWS_PERFECT = (''PERFECT'', 25, ''text-yellow-300'')
   \<and> classify True HIT_WINDOWS_GOOD = (''GOOD'', 25, ''text-green-300'')
   \<and> classify True HIT_WINDOWS_MISS = (''OK'', 25, ''text-blue-300'')
   \<and> closest 0 (dbl (108 / 100)) (notesRef (one_note 1)) = Some 0
   \<and> snd (judge True 0 (dbl (108 / 100)) (one_note 1)) ! 0
       = ShowHitEffect 0 ''GOOD'' ''text-green-300''
   \<and> closest 0 0 (notesRef (one_note (dbl (8 / 100)))) = Some 0
   \<and> snd (judge True 0 0 (one_note (dbl (8 / 100)))) ! 0
       = ShowHitEffect 0 ''PERFECT'' ''text-yellow-300''
   \<and> scoreRef (fst (judge True 0 0 (one_note (dbl (8 / 100))))) = 25"
proof -
  have le: "HIT_WINDOWS_PERFECT < HIT_WINDOWS_GOOD" "HIT_WINDOWS_GOOD < HIT_WINDOWS_MISS"
    by (simp_all add: PERFECT_value GOOD_value MISS_value)
  have p: "classify True HIT_WINDOWS_PERFECT = (''PERFECT'', 25, ''text-yellow-300'')"
    using classify_tiers [of HIT_WINDOWS_PERFECT True] by simp
  have g: "classify True HIT_WINDOWS_GOOD = (''GOOD'', 25, ''text-green-300'')"
    using classify_tiers [of HIT_WINDOWS_GOOD True] le by simp
  have k: "classify True HIT_WINDOWS_MISS = (''OK'', 25, ''text-blue-300'')"
    using classify_tiers [of HIT_WINDOWS_MISS True] le by simp
  \<comment> \<open>a note at 1.0 and a press at 1.08: the computed delta is above the double 0.08\<close>
  have c1: "closest 0 (dbl (108 / 100)) (notesRef (one_note 1)) = Some 0"
    by code_simp
  have d1: "classify True \<bar>dsub (timestamp (notesRef (one_note 1) ! 0)) (dbl (108 / 100))\<bar>
              = (''GOOD'', 25, ''text-green-300'')"
    by code_simp
  from classify_tiers [of 0 True 0 "dbl (108 / 100)" "one_note 1" 0] c1
  have "snd (judge True 0 (dbl (108 / 100)) (one_note 1)) ! 0 =
      ShowHitEffect 0
        (fst (classify True \<bar>dsub (timestamp (notesRef (one_note 1) ! 0)) (dbl (108 / 100))\<bar>))
        (snd (snd (classify True
           \<bar>dsub (timestamp (notesRef (one_note 1) ! 0)) (dbl (108 / 100))\<bar>)))"
    by blast
  then have j1: "snd (judge True 0 (dbl (108 / 100)) (one_note 1)) ! 0
       = ShowHitEffect 0 ''GOOD'' ''text-green-300''"
    by (simp only: d1 fst_conv snd_conv)
  \<comment> \<open>a note at 0.08 and a press at 0: the computed delta is the double 0.08\<close>
  have c2: "closest 0 0 (notesRef (one_note (dbl (8 / 100)))) = Some 0"
    by code_simp
  have d2: "classify True \<bar>dsub (timestamp (notesRef (one_note (dbl (8 / 100))) ! 0)) 0\<bar>
              = (''PERFECT'', 25, ''text-yellow-300'')"
    by code_simp
  have z: "scoreRef (one_note (dbl (8 / 100))) = 0"
    by (simp add: one_note_def)
  from classify_tiers [of 0 True 0 0 "one_note (dbl (8 / 100))" 0] c2
  have "snd (judge True 0 0 (one_note (dbl (8 / 100)))) ! 0 =
      ShowHitEffect 0
        (fst (classify True \<bar>dsub (timestamp (notesRef (one_note (dbl (8 / 100))) ! 0)) 0\<bar>))
        (snd (snd (classify True
           \<bar>dsub (timestamp (notesRef (one_note (dbl (8 / 100))) ! 0)) 0\<bar>)))
      \<and> scoreRef (fst (judge True 0 0 (one_note (dbl (8 / 100)))))
          = scoreRef (one_note (dbl (8 / 100))) + 25"
    by blast
  then have j2: "snd (judge True 0 0 (one_note (dbl (8 / 100)))) ! 0
       = ShowHitEffect 0 ''PERFECT'' ''text-yellow-300''
     \<and> scoreRef (fst (judge True 0 0 (one_note (dbl (8 / 100))))) = 25"
    by (simp only: d2 z fst_conv snd_conv) simp
  from p g k c1 j1 c2 j2 show ?thesis by blast
qed

subsection \<open>The selected note\<close>

text \<open>
  C3. The note that a press in lane \<open>l\<close> at time \<open>t\<close> selects lies in lane \<open>l\<close>, is not
  hit when it is selected, and its delta, the absolute value of the double difference
  \<open>timestamp - t\<close>, is at most \<open>HIT_WINDOWS.MISS\<close>, which is 0.25. A note whose flag the
  press sets is that selected note, and a note whose delta exceeds 0.25 is never
  selected.
\<close>

theorem judged_note_in_window:
  "(closest l t (notesRef s) = Some c \<longrightarrow>
      c < length (notesRef s) \<and> lane (notesRef s ! c) = l \<and> \<not> hit (notesRef s ! c)
      \<and> \<bar>dsub (timestamp (notesRef s ! c)) t\<bar> \<le> HIT_WINDOWS_MISS)
   \<and> (n < length (notesRef s) \<and> \<not> hit (notesRef s ! n)
        \<and> hit (notesRef (fst (judge st l t s)) ! n) \<longrightarrow>
      closest l t (notesRef s) = Some n \<and> lane (notesRef s ! n) = l
      \<and> \<bar>dsub (timestamp (notesRef s ! n)) t\<bar> \<le> HIT_WINDOWS_MISS)
   \<and> (\<bar>dsub (timestamp (notesRef s ! n)) t\<bar> > HIT_WINDOWS_MISS \<longrightarrow>
        closest l t (notesRef s) \<noteq> Some n)
   \<and> HIT_WINDOWS_MISS = 1 / 4"
proof (intro conjI impI)
  assume c: "closest l t (notesRef s) = Some c"
  from closest_in_window [OF c]
  show "c < length (notesRef s)" "lane (notesRef s ! c) = l" "\<not> hit (notesRef s ! c)"
    "\<bar>dsub (timestamp (notesRef s ! c)) t\<bar> \<le> HIT_WINDOWS_MISS" by simp_all
next
  assume a: "n < length (notesRef s) \<and> \<not> hit (notesRef s ! n)
        \<and> hit (notesRef (fst (judge st l t s)) ! n)"
  show n: "closest l t (notesRef s) = Some n"
  proof (cases "closest l t (notesRef s)")
    case None
    with a show ?thesis by (simp add: judge_notes)
  next
    case (Some c)
    with a have "hit ((notesRef s)[c := (notesRef s ! c)\<lparr>hit := True\<rparr>] ! n)"
      by (simp add: judge_notes)
    with a have "c = n" by (cases "c = n") simp_all
    with Some show ?thesis by simp
  qed
  from closest_in_window [OF n]
  show "lane (notesRef s ! n) = l" "\<bar>dsub (timestamp (notesRef s ! n)) t\<bar> \<le> HIT_WINDOWS_MISS"
    by simp_all
next
  assume "\<bar>dsub (timestamp (notesRef s ! n)) t\<bar> > HIT_WINDOWS_MISS"
  then show "closest l t (notesRef s) \<noteq> Some n"
    using closest_in_window [of l t "notesRef s" n] by auto
next
  show "HIT_WINDOWS_MISS = 1 / 4" by (rule MISS_value)
qed

theorem judged_note_in_window_witness:
  "closest 0 (dbl (103 / 100)) (notesRef two_close) = Some 1
   \<and> lane (notesRef two_close ! 1) = 0 \<and> \<not> hit (notesRef two_close ! 1)
   \<and> \<bar>dsub (timestamp (notesRef two_close ! 1)) (dbl (103 / 100))\<bar> \<le> HIT_WINDOWS_MISS
   \<and> hit (notesRef (fst (judge True 0 (dbl (103 / 100)) two_close)) ! 1)
   \<and> closest 0 (dbl (3 / 10)) (notesRef (one_note (dbl (55 / 100)))) \<noteq> Some 0
   \<and> closest 0 (dbl (10000000000000007 / 10 ^ 18)) (notesRef (one_note (dbl (26 / 100))))
       = Some 0
   \<and> \<bar>dsub (timestamp (notesRef (one_note (dbl (26 / 100))) ! 0))
           (dbl (10000000000000007 / 10 ^ 18))\<bar> \<le> HIT_WINDOWS_MISS"
proof -
  note c = two_close_closest
  have h: "hit (notesRef (fst (judge True 0 (dbl (103 / 100)) two_close)) ! 1)"
    by (simp add: judge_notes c) (simp add: two_close_def)
  from judged_note_in_window [of 0 "dbl (103 / 100)" two_close 1 1 True] c
  have w1: "lane (notesRef two_close ! 1) = 0 \<and> \<not> hit (notesRef two_close ! 1)
     \<and> \<bar>dsub (timestamp (notesRef two_close ! 1)) (dbl (103 / 100))\<bar> \<le> HIT_WINDOWS_MISS"
    by blast
  \<comment> \<open>a note at 0.55 and a press at 0.3: the computed delta is above 0.25\<close>
  have f: "\<bar>dsub (timestamp (notesRef (one_note (dbl (55 / 100))) ! 0)) (dbl (3 / 10))\<bar>
             > HIT_WINDOWS_MISS"
    by code_simp
  from judged_note_in_window [of 0 "dbl (3 / 10)" "one_note (dbl (55 / 100))" 0 0 True] f
  have w2: "closest 0 (dbl (3 / 10)) (notesRef (one_note (dbl (55 / 100)))) \<noteq> Some 0"
    by blast
  \<comment> \<open>a note at 0.26 and a press at 0.010000000000000007: the computed delta is 0.25\<close>
  have c3: "closest 0 (dbl (10000000000000007 / 10 ^ 18)) (notesRef (one_note (dbl (26 / 100))))
       = Some 0"
    by code_simp
  from judged_note_in_window [of 0 "dbl (10000000000000007 / 10 ^ 18)"
      "one_note (dbl (26 / 100))" 0 0 True] c3
  have w3: "\<bar>dsub (timestamp (notesRef (one_note (dbl (26 / 100))) ! 0))
           (dbl (10000000000000007 / 10 ^ 18))\<bar> \<le> HIT_WINDOWS_MISS"
    by blast
  from c h w1 w2 c3 w3 show ?thesis by blast
qed

subsection \<open>Which candidate is selected\<close>

lemma foldl_closer_le:
  "\<bar>dsub (timestamp (ns ! foldl (closer t ns) c cs)) t\<bar> \<le> \<bar>dsub (timestamp (ns ! c)) t\<bar>"
proof (induction cs arbitrary: c)
  case Nil
  show ?case by simp
next
  case (Cons b cs)
  have "\<bar>dsub (timestamp (ns ! closer t ns c b)) t\<bar> \<le> \<bar>dsub (timestamp (ns ! c)) t\<bar>"
    by (simp add: closer_def)
  with Cons [of "closer t ns c b"] show ?case by simp
qed

lemma foldl_closer_min:
  "x \<in> set (c # cs) \<Longrightarrow>
     \<bar>dsub (timestamp (ns ! foldl (closer t ns) c cs)) t\<bar> \<le> \<bar>dsub (timestamp (ns ! x)) t\<bar>"
proof (induction cs arbitrary: c)
  case Nil
  then show ?case by simp
next
  case (Cons b cs)
  have le: "\<bar>dsub (timestamp (ns ! closer t ns c b)) t\<bar> \<le> \<bar>dsub (timestamp (ns ! c)) t\<bar>"
       "\<bar>dsub (timestamp (ns ! closer t ns c b)) t\<bar> \<le> \<bar>dsub (timestamp (ns ! b)) t\<bar>"
    by (simp_all add: closer_def)
  from Cons.prems consider "x = c" | "x = b" | "x \<in> set cs" by auto
  then show ?case
  proof cases
    case 1
    with le(1) foldl_closer_le [of ns t "closer t ns c b" cs] show ?thesis by simp
  next
    case 2
    with le(2) foldl_closer_le [of ns t "closer t ns c b" cs] show ?thesis by simp
  next
    case 3
    with Cons.IH [of "closer t ns c b"] show ?thesis by simp
  qed
qed

lemma foldl_closer_tie:
  "sorted (c # cs) \<Longrightarrow> x \<in> set (c # cs) \<Longrightarrow>
   \<bar>dsub (timestamp (ns ! x)) t\<bar> \<le> \<bar>dsub (timestamp (ns ! foldl (closer t ns) c cs)) t\<bar> \<Longrightarrow>
   x \<le> foldl (closer t ns) c cs"
proof (induction cs arbitrary: c x)
  case Nil
  then show ?case by simp
next
  case (Cons b cs)
  let ?a = "closer t ns c b"
  let ?r = "foldl (closer t ns) ?a cs"
  have a_in: "?a = c \<or> ?a = b" by (rule closer_cases)
  have srt: "sorted (?a # cs)" using Cons.prems(1) a_in by auto
  have r_le_a: "\<bar>dsub (timestamp (ns ! ?r)) t\<bar> \<le> \<bar>dsub (timestamp (ns ! ?a)) t\<bar>"
    by (rule foldl_closer_le)
  have x_le_r: "\<bar>dsub (timestamp (ns ! x)) t\<bar> \<le> \<bar>dsub (timestamp (ns ! ?r)) t\<bar>"
    using Cons.prems(3) by simp
  show ?case
  proof (cases "x \<in> set (?a # cs)")
    case True
    from Cons.IH [OF srt True x_le_r] show ?thesis by simp
  next
    case False
    with Cons.prems(2) a_in have "(x = c \<and> ?a = b) \<or> (x = b \<and> ?a = c)" by auto
    then show ?thesis
    proof
      assume h: "x = c \<and> ?a = b"
      then have "\<not> \<bar>dsub (timestamp (ns ! c)) t\<bar> < \<bar>dsub (timestamp (ns ! b)) t\<bar> \<or> c = b"
        by (auto simp: closer_def split: if_splits)
      with h x_le_r r_le_a have "\<bar>dsub (timestamp (ns ! ?a)) t\<bar> \<le> \<bar>dsub (timestamp (ns ! ?r)) t\<bar>"
        by auto
      from Cons.IH [of ?a ?a, OF srt _ this] have "?a \<le> ?r" by simp
      moreover have "c \<le> b" using Cons.prems(1) by simp
      ultimately show ?thesis using h by simp
    next
      assume h: "x = b \<and> ?a = c"
      show ?thesis
      proof (cases "b = c")
        case True
        with h False show ?thesis by simp
      next
        case False
        with h have "\<bar>dsub (timestamp (ns ! c)) t\<bar> < \<bar>dsub (timestamp (ns ! b)) t\<bar>"
          by (auto simp: closer_def split: if_splits)
        with h x_le_r r_le_a show ?thesis by simp
      qed
    qed
  qed
qed

lemma closest_min:
  assumes "closest l t ns = Some c" and "x \<in> set (candidates l t ns)"
  shows "\<bar>dsub (timestamp (ns ! c)) t\<bar> \<le> \<bar>dsub (timestamp (ns ! x)) t\<bar>"
  using assms foldl_closer_min [of x _ _ ns t]
  by (auto simp: closest_def split: list.splits)

lemma closest_tie:
  assumes "closest l t ns = Some c" and "x \<in> set (candidates l t ns)"
    and "\<bar>dsub (timestamp (ns ! x)) t\<bar> = \<bar>dsub (timestamp (ns ! c)) t\<bar>"
  shows "x \<le> c"
proof -
  from assms(1) obtain a as where cs: "candidates l t ns = a # as"
    and c: "c = foldl (closer t ns) a as"
    by (auto simp: closest_def split: list.splits)
  have "sorted (a # as)" using sorted_candidates [of l t ns] cs by simp
  moreover have "x \<in> set (a # as)" using assms(2) cs by simp
  ultimately show ?thesis using foldl_closer_tie [of a as x ns t] assms(3) c by simp
qed

text \<open>
  C4, as the claim states it, has the earlier candidate kept on an exact tie. In the track
  \<open>five_words\<close> the notes at positions 0 and 4 are both in lane 0 and both exactly 0.25
  seconds from a press at 1.25 (all three numbers are doubles and the differences are
  exact); the press selects the later one, at position 4.
\<close>

theorem tie_keeps_later_counterexample:
  "candidates 0 (5 / 4) (notesRef (startGame (\<lambda>w. w) (Some five_words) 5 mounted)) = [0, 4]
   \<and> \<bar>dsub (timestamp (notesRef (startGame (\<lambda>w. w) (Some five_words) 5 mounted) ! 0)) (5 / 4)\<bar>
       = \<bar>dsub (timestamp (notesRef (startGame (\<lambda>w. w) (Some five_words) 5 mounted) ! 4)) (5 / 4)\<bar>
   \<and> \<bar>timestamp (notesRef (startGame (\<lambda>w. w) (Some five_words) 5 mounted) ! 0) - 5 / 4\<bar>
       = \<bar>timestamp (notesRef (startGame (\<lambda>w. w) (Some five_words) 5 mounted) ! 4) - 5 / 4\<bar>
   \<and> closest 0 (5 / 4) (notesRef (startGame (\<lambda>w. w) (Some five_words) 5 mounted)) = Some 4
   \<and> closest 0 (5 / 4) (notesRef (startGame (\<lambda>w. w) (Some five_words) 5 mounted)) \<noteq> Some 0"
  by code_simp

text \<open>
  C4, amended. Whenever the candidates of a press are not empty, the selected note is a
  candidate that minimises the delta (the absolute value of the double difference
  \<open>timestamp - currentTime\<close>), and among the candidates with that minimal delta it is the
  last one in the note sequence (on an exact tie the later candidate is kept), so the
  choice is determined by the candidate order. With two unhit lane-0 notes at 1.0 and 1.05
  and a press at 1.03, the note at 1.05 is selected.
\<close>

theorem closest_is_nearest_later_on_tie:
  "(candidates l t ns \<noteq> [] \<longrightarrow>
     (\<exists>c. closest l t ns = Some c \<and> c \<in> set (candidates l t ns)
        \<and> (\<forall>x \<in> set (candidates l t ns).
              \<bar>dsub (timestamp (ns ! c)) t\<bar> \<le> \<bar>dsub (timestamp (ns ! x)) t\<bar>
              \<and> (\<bar>dsub (timestamp (ns ! x)) t\<bar> = \<bar>dsub (timestamp (ns ! c)) t\<bar> \<longrightarrow> x \<le> c))))
   \<and> closest 0 (dbl (103 / 100)) (notesRef two_close) = Some 1
   \<and> timestamp (notesRef two_close ! 1) = dbl (105 / 100)"
proof (intro conjI impI)
  assume "candidates l t ns \<noteq> []"
  then obtain c where c: "closest l t ns = Some c"
    using closest_None [of l t ns] by (cases "closest l t ns") auto
  show "\<exists>c. closest l t ns = Some c \<and> c \<in> set (candidates l t ns)
        \<and> (\<forall>x \<in> set (candidates l t ns).
              \<bar>dsub (timestamp (ns ! c)) t\<bar> \<le> \<bar>dsub (timestamp (ns ! x)) t\<bar>
              \<and> (\<bar>dsub (timestamp (ns ! x)) t\<bar> = \<bar>dsub (timestamp (ns ! c)) t\<bar> \<longrightarrow> x \<le> c))"
    using c closest_mem [OF c] closest_min [OF c] closest_tie [OF c] by blast
next
  show "closest 0 (dbl (103 / 100)) (notesRef two_close) = Some 1"
    by (rule two_close_closest)
  show "timestamp (notesRef two_close ! 1) = dbl (105 / 100)"
    by (simp add: two_close_def note_at_def)
qed

theorem closest_is_nearest_later_on_tie_witness:
  "candidates 0 (5 / 4) (notesRef (startGame (\<lambda>w. w) (Some five_words) 5 mounted)) = [0, 4]
   \<and> closest 0 (5 / 4) (notesRef (startGame (\<lambda>w. w) (Some five_words) 5 mounted)) = Some 4
   \<and> candidates 0 (dbl (115 / 100)) (notesRef two_apart) = [0, 1]
   \<and> closest 0 (dbl (115 / 100)) (notesRef two_apart) = Some 0"
proof -
  let ?ns = "notesRef (startGame (\<lambda>w. w) (Some five_words) 5 mounted)"
  have cands: "candidates 0 (5 / 4) ?ns = [0, 4]"
    by code_simp
  then have ne: "candidates 0 (5 / 4) ?ns \<noteq> []" by simp
  from closest_is_nearest_later_on_tie [of 0 "5 / 4" ?ns] ne
  obtain c where c: "closest 0 (5 / 4) ?ns = Some c" "c \<in> set (candidates 0 (5 / 4) ?ns)"
    and tie: "\<forall>x \<in> set (candidates 0 (5 / 4) ?ns).
                \<bar>dsub (timestamp (?ns ! x)) (5 / 4)\<bar> = \<bar>dsub (timestamp (?ns ! c)) (5 / 4)\<bar>
                  \<longrightarrow> x \<le> c"
    by blast
  from c(2) cands have c04: "c = 0 \<or> c = 4" by simp
  have d: "\<bar>dsub (timestamp (?ns ! 4)) (5 / 4)\<bar> = \<bar>dsub (timestamp (?ns ! 0)) (5 / 4)\<bar>"
    by code_simp
  from c04 d
  have "\<bar>dsub (timestamp (?ns ! 4)) (5 / 4)\<bar> = \<bar>dsub (timestamp (?ns ! c)) (5 / 4)\<bar>"
    by auto
  moreover have "4 \<in> set (candidates 0 (5 / 4) ?ns)" unfolding cands by simp
  ultimately have "4 \<le> c" using tie by blast
  with c04 have "c = 4" by simp
  with c(1) have c4: "closest 0 (5 / 4) ?ns = Some 4" by simp
  \<comment> \<open>notes at 1.0 and 1.3 and a press at 1.15: no tie in double arithmetic\<close>
  let ?ms = "notesRef two_apart"
  have cands': "candidates 0 (dbl (115 / 100)) ?ms = [0, 1]"
    by code_simp
  then have ne': "candidates 0 (dbl (115 / 100)) ?ms \<noteq> []" by simp
  from closest_is_nearest_later_on_tie [of 0 "dbl (115 / 100)" ?ms] ne'
  obtain c' where c': "closest 0 (dbl (115 / 100)) ?ms = Some c'"
      "c' \<in> set (candidates 0 (dbl (115 / 100)) ?ms)"
    and mn: "\<forall>x \<in> set (candidates 0 (dbl (115 / 100)) ?ms).
                \<bar>dsub (timestamp (?ms ! c')) (dbl (115 / 100))\<bar>
                  \<le> \<bar>dsub (timestamp (?ms ! x)) (dbl (115 / 100))\<bar>"
    by blast
  have lt: "\<bar>dsub (timestamp (?ms ! 0)) (dbl (115 / 100))\<bar>
              < \<bar>dsub (timestamp (?ms ! 1)) (dbl (115 / 100))\<bar>"
    by code_simp
  have "0 \<in> set (candidates 0 (dbl (115 / 100)) ?ms)" unfolding cands' by simp
  with mn have "\<bar>dsub (timestamp (?ms ! c')) (dbl (115 / 100))\<bar>
                  \<le> \<bar>dsub (timestamp (?ms ! 0)) (dbl (115 / 100))\<bar>" by blast
  with lt have "c' \<noteq> 1" by auto
  moreover from c'(2) cands' have "c' = 0 \<or> c' = 1" by simp
  ultimately have "c' = 0" by simp
  with c'(1) have "closest 0 (dbl (115 / 100)) ?ms = Some 0" by simp
  with cands c4 cands' show ?thesis by blast
qed

subsection \<open>The effects of a judged press\<close>

text \<open>
  C5. A judged press sets the \<open>hit\<close> flag of the selected note, adds 25 to the score, 1 to
  the streak and 1 to the hit count, raises the maximal streak to the new streak, and is to
  hand the lane, the tier and the judged note to the presentation. The handler passes the
  lane, the label and the colour only, and \<open>showHitEffect\<close> finds the note for the coin by
  a lookup of its own. In the track \<open>quick_words\<close> a press of lane 0 at 1.0 judges the note
  ``uno''; a second press at 1.04 judges the note ``dos'', with the effects on the state as
  stated (score 50, streak 2, both flags set), and the lookup yields ``uno''.
\<close>

theorem coin_shows_other_note:
  "closest 0 1 (notesRef (startGame (\<lambda>w. w) (Some quick_words) 5 mounted)) = Some 0
   \<and> closest 0 (dbl (104 / 100))
       (notesRef (fst (handleKey True ''ArrowLeft'' (Some 1)
          (startGame (\<lambda>w. w) (Some quick_words) 5 mounted)))) = Some 4
   \<and> map note_text (notesRef (startGame (\<lambda>w. w) (Some quick_words) 5 mounted))
       = [''uno'', ''y'', ''o'', ''a'', ''dos'']
   \<and> handleKey True ''ArrowLeft'' (Some (dbl (104 / 100)))
        (fst (handleKey True ''ArrowLeft'' (Some 1)
          (startGame (\<lambda>w. w) (Some quick_words) 5 mounted)))
       = (\<lparr> notesRef =
              (notesRef (startGame (\<lambda>w. w) (Some quick_words) 5 mounted))
                [0 := (notesRef (startGame (\<lambda>w. w) (Some quick_words) 5 mounted) ! 0)
                        \<lparr>hit := True\<rparr>,
                 4 := (notesRef (startGame (\<lambda>w. w) (Some quick_words) 5 mounted) ! 4)
                        \<lparr>hit := True\<rparr>],
            scoreRef = 50, comboRef = 2, maxComboRef = 2, totalHitsRef = 2 \<rparr>,
          [ShowLanePress 0, ShowHitEffect 0 ''PERFECT'' ''text-yellow-300'',
           CheckEncouragement 2])
   \<and> map_option note_text
        (showHitEffect_hitNote True 0 (Some (dbl (104 / 100)))
          (notesRef (fst (handleKey True ''ArrowLeft'' (Some (dbl (104 / 100)))
            (fst (handleKey True ''ArrowLeft'' (Some 1)
              (startGame (\<lambda>w. w) (Some quick_words) 5 mounted)))))))
       = Some ''uno''"
  by code_simp

subsection \<open>A press without candidates\<close>

lemma touch_loop_no_candidates:
  "(\<forall>li \<in> set touches. 0 \<le> li \<and> li \<le> 3 \<longrightarrow> candidates (nat li) t (notesRef s) = []) \<Longrightarrow>
   fst (handleTouch_loop st touches (Some t) s es) = s"
proof (induction touches arbitrary: es)
  case Nil
  then show ?case by simp
next
  case (Cons li touches)
  show ?case
  proof (cases "li < 0 \<or> li > 3")
    case True
    with Cons show ?thesis by simp
  next
    case False
    with Cons.prems have "closest (nat li) t (notesRef s) = None"
      by (simp add: closest_None)
    then have "judge st (nat li) t s = (s, [])" by (rule judge_None)
    with False Cons show ?thesis by simp
  qed
qed

text \<open>
  C6. A press whose candidate list is empty produces no hit effect and leaves the whole
  state as it was: score, streak, maximal streak, hit count and every note. This holds
  for a key press, for every touch of a touch event, and for a session with no notes at
  all.
\<close>

theorem no_candidate_no_effect:
  "(candidates l t (notesRef s) = [] \<longrightarrow>
      judge st l t s = (s, [])
      \<and> (laneMap key = Some l \<longrightarrow> handleKey st key (Some t) s = (s, [ShowLanePress l])))
   \<and> ((\<forall>li \<in> set touches. 0 \<le> li \<and> li \<le> 3 \<longrightarrow> candidates (nat li) t (notesRef s) = []) \<longrightarrow>
      fst (handleTouch st container touches (Some t) s) = s)
   \<and> (notesRef s = [] \<longrightarrow>
      candidates l t (notesRef s) = [] \<and> judge st l t s = (s, [])
      \<and> fst (handleKey st key (Some t) s) = s
      \<and> fst (handleTouch st container touches (Some t) s) = s)"
proof -
  have j: "judge st l t s = (s, [])" if "candidates l t (notesRef s) = []" for l
    using that by (simp add: judge_None closest_None)
  have k: "handleKey st key (Some t) s = (s, [ShowLanePress l])"
    if "candidates l t (notesRef s) = []" "laneMap key = Some l"
    using that j [of l] by (simp add: handleKey_def)
  have tch: "fst (handleTouch st container touches (Some t) s) = s"
    if "\<forall>li \<in> set touches. 0 \<le> li \<and> li \<le> 3 \<longrightarrow> candidates (nat li) t (notesRef s) = []"
    using touch_loop_no_candidates [OF that] by (simp add: handleTouch_def)
  have e: "candidates l t (notesRef s) = []" if "notesRef s = []" for l
    using that by (simp add: candidates_def)
  have ke: "fst (handleKey st key (Some t) s) = s" if "notesRef s = []"
    using j [OF e [OF that]] by (simp add: handleKey_def split: option.splits)
  show ?thesis using j k tch e ke by blast
qed


theorem no_candidate_no_effect_witness:
  "candidates 1 1 (notesRef two_close) = []
   \<and> judge True 1 1 two_close = (two_close, [])
   \<and> handleKey True ''ArrowDown'' (Some 1) two_close = (two_close, [ShowLanePress 1])
   \<and> fst (handleTouch True True [1, 7, 2] (Some 1) two_close) = two_close
   \<and> judge True 0 1 mounted = (mounted, [])"
proof -
  have c: "candidates l 1 (notesRef two_close) = []" if "l \<noteq> 0" for l
    using that by (auto simp: two_close_def candidates_def note_at_def filter_empty_conv
        nth_Cons split: nat.splits)
  have m: "laneMap ''ArrowDown'' = Some 1" by (simp add: laneMap_def)
  have t: "\<forall>li \<in> set [1, 7, 2 :: int]. 0 \<le> li \<and> li \<le> 3 \<longrightarrow>
             candidates (nat li) 1 (notesRef two_close) = []"
    by (simp add: c)
  have e: "notesRef mounted = []" by (simp add: mounted_def)
  show ?thesis
    using no_candidate_no_effect [of 1 1 two_close True "''ArrowDown''" "[1, 7, 2]" True] c [of 1] m t
      no_candidate_no_effect [of 0 1 mounted True "''ArrowDown''" "[]" True] e
    by simp
qed

section \<open>The auto-miss sweep\<close>

lemma autoMiss_prefix:
  "k \<le> length (notesRef s) \<Longrightarrow>
   foldl (autoMiss_note t) s [0..<k] =
     s\<lparr>notesRef := map (swept t) (take k (notesRef s)) @ drop k (notesRef s),
       comboRef := (if \<exists>n \<in> set (take k (notesRef s)). expired t n then 0 else comboRef s)\<rparr>"
proof (induction k)
  case 0
  show ?case by simp
next
  case (Suc k)
  let ?ns = "notesRef s"
  let ?mid = "s\<lparr>notesRef := map (swept t) (take k ?ns) @ drop k ?ns,
       comboRef := (if \<exists>n \<in> set (take k ?ns). expired t n then 0 else comboRef s)\<rparr>"
  from Suc.prems have k: "k < length ?ns" by simp
  have f: "foldl (autoMiss_note t) s [0..<Suc k] = autoMiss_note t ?mid k"
    using Suc.IH k by simp
  have nth: "notesRef ?mid ! k = ?ns ! k"
    using k by (simp add: nth_append)
  have upd: "(notesRef ?mid)[k := v] = map (swept t) (take k ?ns) @ v # drop (Suc k) ?ns" for v
    using k by (simp add: list_update_append Cons_nth_drop_Suc [symmetric])
  have keep: "notesRef ?mid = map (swept t) (take k ?ns) @ (?ns ! k) # drop (Suc k) ?ns"
    using k by (simp add: Cons_nth_drop_Suc)
  have tk: "take (Suc k) ?ns = take k ?ns @ [?ns ! k]"
    using k by (simp add: take_Suc_conv_app_nth)
  show ?case
  proof (cases "expired t (?ns ! k)")
    case True
    then have am: "autoMiss_note t ?mid k =
        ?mid\<lparr>notesRef := (notesRef ?mid)[k := (?ns ! k)\<lparr>hit := True\<rparr>], comboRef := 0\<rparr>"
      unfolding autoMiss_note_def Let_def nth
      by (simp add: expired_def)
    have sw: "swept t (?ns ! k) = (?ns ! k)\<lparr>hit := True\<rparr>"
      using True by (simp add: swept_def)
    have ex: "\<exists>n \<in> set (take (Suc k) ?ns). expired t n"
      using True by (simp add: tk)
    have nts: "map (swept t) (take (Suc k) ?ns) @ drop (Suc k) ?ns
                 = map (swept t) (take k ?ns) @ (?ns ! k)\<lparr>hit := True\<rparr> # drop (Suc k) ?ns"
      by (simp add: tk sw)
    show ?thesis
      unfolding f am upd nts using ex by simp
  next
    case False
    then have am: "autoMiss_note t ?mid k = ?mid"
      unfolding autoMiss_note_def Let_def nth
      by (auto simp: expired_def)
    have sw: "swept t (?ns ! k) = ?ns ! k"
      using False by (simp add: swept_def)
    have ex: "(\<exists>n \<in> set (take (Suc k) ?ns). expired t n)
                \<longleftrightarrow> (\<exists>n \<in> set (take k ?ns). expired t n)"
      using False by (simp add: tk)
    have nts: "map (swept t) (take (Suc k) ?ns) @ drop (Suc k) ?ns
                 = map (swept t) (take k ?ns) @ drop k ?ns"
      using k by (simp add: tk sw Cons_nth_drop_Suc)
    show ?thesis
      unfolding f am ex nts ..
  qed
qed

lemma autoMiss_eq:
  "autoMiss t s =
     s\<lparr>notesRef := map (swept t) (notesRef s),
       comboRef := (if \<exists>n \<in> set (notesRef s). expired t n then 0 else comboRef s)\<rparr>"
  using autoMiss_prefix [of "length (notesRef s)" s t] by (simp add: autoMiss_def)

lemma swept_idem: "swept t (swept t n) = swept t n"
  by (simp add: swept_def)

lemma not_expired_swept: "\<not> expired t (swept t n)"
  by (simp add: swept_def) (simp add: expired_def)

lemma autoMiss_idem: "autoMiss t (autoMiss t s) = autoMiss t s"
  by (simp add: autoMiss_eq [of t "s\<lparr>notesRef := _, comboRef := _\<rparr>"] autoMiss_eq [of t s] swept_idem not_expired_swept comp_def)


lemma dbl_26: "dbl (26 / 100) = 1170935903116329 / 2 ^ 52"
  by code_simp

lemma sweep_after_26:
  assumes ts: "\<bar>ts\<bar> \<le> 2 ^ 40"
  shows "dadd ts HIT_WINDOWS_MISS < dadd ts (dbl (26 / 100))"
proof -
  define k where "k = \<lceil>ts * 4096 + 1024\<rceil>"
  have p: "(2 :: rat) powi (- 12) = 1 / 4096"
    by (simp add: power_int_minus_divide)
  have k1: "ts * 4096 + 1024 \<le> of_int k"
    unfolding k_def by (rule le_of_int_ceiling)
  have k2: "of_int k < ts * 4096 + 1025"
    unfolding k_def by linarith
  from ts have a: "- 1099511627776 \<le> ts" "ts \<le> 1099511627776"
    by (simp_all add: abs_le_iff)
  from k2 a(2) have "(of_int k :: rat) < 9007199254740991" by linarith
  then have ku: "k < 9007199254740991" by simp
  from k1 a(1) have "- 9007199254740992 < (of_int k :: rat)" by linarith
  then have kl: "- 9007199254740992 < k" by simp
  from ku kl have b1: "\<bar>k\<bar> < 2 ^ 53" and b2: "\<bar>k + 1\<bar> < 2 ^ 53" by simp_all
  have e1: "dbl (of_int k / 4096) = of_int k / 4096"
    using dbl_exact [OF b1, of "- 12"] by (simp only: p) simp
  have e2: "dbl (of_int (k + 1) / 4096) = of_int (k + 1) / 4096"
    using dbl_exact [OF b2, of "- 12"] by (simp only: p) simp
  have "ts + 1 / 4 \<le> of_int k / 4096" using k1 by linarith
  then have "dbl (ts + 1 / 4) \<le> dbl (of_int k / 4096)" by (rule dbl_mono)
  also have "\<dots> = of_int k / 4096" by (rule e1)
  also have "\<dots> < of_int (k + 1) / 4096" by simp
  also have "\<dots> = dbl (of_int (k + 1) / 4096)" by (rule e2 [symmetric])
  also have "\<dots> \<le> dbl (ts + dbl (26 / 100))"
  proof (rule dbl_mono)
    from k2 have "(of_int (k + 1) :: rat) < ts * 4096 + 1026" by simp
    then have "(of_int (k + 1) :: rat) / 4096 < (ts * 4096 + 1026) / 4096"
      by (simp add: divide_strict_right_mono)
    also have "\<dots> = ts + 1026 / 4096"
      by (simp add: add_divide_distrib)
    also have "\<dots> \<le> ts + 1170935903116329 / 2 ^ 52"
      by simp
    finally show "of_int (k + 1) / 4096 \<le> ts + dbl (26 / 100)"
      by (simp only: dbl_26)
  qed
  finally show ?thesis by (simp add: dadd_def MISS_value)
qed

text \<open>
  C7. A sweep at time \<open>t\<close> sets the \<open>hit\<close> flag of every note that is not hit and has
  \<open>t > timestamp + HIT_WINDOWS.MISS\<close>, the sum being the double sum with 0.25, leaves the
  other notes as they are, and resets the streak to 0 if there is such a note; score,
  maximal streak and hit count stay. A sweep at \<open>timestamp + 0.26\<close> of an unhit note marks
  it and resets the streak, whatever the streak was; this is shown for timestamps of at
  most \<open>2^40\<close> seconds, since doubles from about \<open>2^46\<close> on are further apart than 0.01.
  Sweeping again at the same time changes nothing. A frame with a playing audio element
  and a container is this sweep.
\<close>

theorem autoMiss_sweep:
  "notesRef (autoMiss t s) =
     map (\<lambda>n. if \<not> hit n \<and> t > dadd (timestamp n) HIT_WINDOWS_MISS then n\<lparr>hit := True\<rparr> else n)
         (notesRef s)
   \<and> comboRef (autoMiss t s) =
       (if \<exists>n \<in> set (notesRef s). \<not> hit n \<and> t > dadd (timestamp n) HIT_WINDOWS_MISS then 0
        else comboRef s)
   \<and> scoreRef (autoMiss t s) = scoreRef s
   \<and> maxComboRef (autoMiss t s) = maxComboRef s
   \<and> totalHitsRef (autoMiss t s) = totalHitsRef s
   \<and> (i < length (notesRef s) \<and> \<not> hit (notesRef s ! i)
        \<and> \<bar>timestamp (notesRef s ! i)\<bar> \<le> 2 ^ 40 \<longrightarrow>
        hit (notesRef (autoMiss (dadd (timestamp (notesRef s ! i)) (dbl (26 / 100))) s) ! i)
        \<and> comboRef (autoMiss (dadd (timestamp (notesRef s ! i)) (dbl (26 / 100))) s) = 0)
   \<and> autoMiss t (autoMiss t s) = autoMiss t s
   \<and> render (Some t) True s = autoMiss t s
   \<and> HIT_WINDOWS_MISS = 1 / 4"
proof (intro conjI impI)
  show "notesRef (autoMiss t s) =
     map (\<lambda>n. if \<not> hit n \<and> t > dadd (timestamp n) HIT_WINDOWS_MISS then n\<lparr>hit := True\<rparr> else n)
         (notesRef s)"
    by (simp add: autoMiss_eq swept_def [abs_def] expired_def)
  show "comboRef (autoMiss t s) =
       (if \<exists>n \<in> set (notesRef s). \<not> hit n \<and> t > dadd (timestamp n) HIT_WINDOWS_MISS then 0
        else comboRef s)"
    by (simp add: autoMiss_eq expired_def)
  show "scoreRef (autoMiss t s) = scoreRef s" by (simp add: autoMiss_eq)
  show "maxComboRef (autoMiss t s) = maxComboRef s" by (simp add: autoMiss_eq)
  show "totalHitsRef (autoMiss t s) = totalHitsRef s" by (simp add: autoMiss_eq)
  show "autoMiss t (autoMiss t s) = autoMiss t s" by (rule autoMiss_idem)
  show "render (Some t) True s = autoMiss t s" by (simp add: render_def)
  show "HIT_WINDOWS_MISS = 1 / 4" by (rule MISS_value)
next
  assume a: "i < length (notesRef s) \<and> \<not> hit (notesRef s ! i)
        \<and> \<bar>timestamp (notesRef s ! i)\<bar> \<le> 2 ^ 40"
  let ?t = "dadd (timestamp (notesRef s ! i)) (dbl (26 / 100))"
  from a have "dadd (timestamp (notesRef s ! i)) HIT_WINDOWS_MISS < ?t"
    by (intro sweep_after_26) simp
  with a have e: "expired ?t (notesRef s ! i)"
    by (simp add: expired_def)
  with a show "hit (notesRef (autoMiss ?t s) ! i)"
    by (simp add: autoMiss_eq swept_def)
  from a e have "\<exists>n \<in> set (notesRef s). expired ?t n"
    using nth_mem by blast
  then show "comboRef (autoMiss ?t s) = 0"
    by (simp add: autoMiss_eq)
qed

theorem autoMiss_sweep_witness:
  "\<not> hit (notesRef mid_game ! 1) \<and> comboRef mid_game = 1
   \<and> hit (notesRef (autoMiss (dadd 1 (dbl (26 / 100))) mid_game) ! 1)
   \<and> comboRef (autoMiss (dadd 1 (dbl (26 / 100))) mid_game) = 0
   \<and> scoreRef (autoMiss (dadd 1 (dbl (26 / 100))) mid_game) = 25
   \<and> maxComboRef (autoMiss (dadd 1 (dbl (26 / 100))) mid_game) = 1
   \<and> map hit (notesRef (autoMiss (dadd 1 (dbl (26 / 100))) mid_game)) = [True, True, False]
   \<and> autoMiss (dadd 1 (dbl (26 / 100))) (autoMiss (dadd 1 (dbl (26 / 100))) mid_game)
       = autoMiss (dadd 1 (dbl (26 / 100))) mid_game
   \<and> map hit (notesRef (autoMiss (dbl (34 / 100)) (one_note (dbl (9 / 100))))) = [True]
   \<and> map hit (notesRef (autoMiss (dbl (26 / 100)) (one_note (dbl (1 / 100))))) = [False]"
proof -
  have i: "(1 :: nat) < length (notesRef mid_game) \<and> \<not> hit (notesRef mid_game ! 1)
        \<and> \<bar>timestamp (notesRef mid_game ! 1)\<bar> \<le> 2 ^ 40"
    by (simp add: mid_game_def note_at_def)
  have t: "timestamp (notesRef mid_game ! 1) = 1"
    by (simp add: mid_game_def note_at_def)
  have m: "scoreRef mid_game = 25" "maxComboRef mid_game = 1" "comboRef mid_game = 1"
    by (simp_all add: mid_game_def)
  note w = autoMiss_sweep [of "dadd 1 (dbl (26 / 100))" mid_game 1]
  from w i have c: "hit (notesRef (autoMiss (dadd 1 (dbl (26 / 100))) mid_game) ! 1)
      \<and> comboRef (autoMiss (dadd 1 (dbl (26 / 100))) mid_game) = 0"
    unfolding t by blast
  from w have r: "scoreRef (autoMiss (dadd 1 (dbl (26 / 100))) mid_game) = scoreRef mid_game"
    "maxComboRef (autoMiss (dadd 1 (dbl (26 / 100))) mid_game) = maxComboRef mid_game"
    "autoMiss (dadd 1 (dbl (26 / 100))) (autoMiss (dadd 1 (dbl (26 / 100))) mid_game)
       = autoMiss (dadd 1 (dbl (26 / 100))) mid_game"
    by blast+
  have h: "map hit (notesRef (autoMiss (dadd 1 (dbl (26 / 100))) mid_game)) = [True, True, False]"
    by code_simp
  \<comment> \<open>a note at 0.09 and a frame at 0.34: the sum 0.09 + 0.25 is rounded below 0.34\<close>
  have e1: "map hit (notesRef (autoMiss (dbl (34 / 100)) (one_note (dbl (9 / 100))))) = [True]"
    by code_simp
  \<comment> \<open>a note at 0.01 and a frame at 0.26: the sum 0.01 + 0.25 is rounded to 0.26\<close>
  have e2: "map hit (notesRef (autoMiss (dbl (26 / 100)) (one_note (dbl (1 / 100))))) = [False]"
    by code_simp
  from i c r h e1 e2 show ?thesis
    unfolding m by blast
qed

section \<open>Grading\<close>

text \<open>
  C8. The grade depends on the hit count and the number of notes only, through the
  percentage and the fixed thresholds 97, 93, 90, 87, 83, 80, 77, 73, 70, 67, 63 and 60;
  a session without notes gets F, with no division. 93 of 100 is an A, 90 of 100 an A-,
  and 0 of 0 an F.
\<close>

theorem getGrade_thresholds:
  "(notesRef s = [] \<longrightarrow> getGrade s = (''F'', ''text-red-400''))
   \<and> (notesRef s \<noteq> [] \<longrightarrow>
        fst (getGrade s)
          = spec_grade (of_nat (totalHitsRef s) / of_nat (length (notesRef s)) * 100))
   \<and> (length (notesRef s) = 100 \<and> totalHitsRef s = 93 \<longrightarrow> fst (getGrade s) = ''A'')
   \<and> (length (notesRef s) = 100 \<and> totalHitsRef s = 90 \<longrightarrow> fst (getGrade s) = ''A-'')
   \<and> (length (notesRef s) = 0 \<and> totalHitsRef s = 0 \<longrightarrow> fst (getGrade s) = ''F'')"
  by (simp add: getGrade_def spec_grade_def Let_def)

theorem getGrade_thresholds_witness:
  "fst (getGrade (hundred_notes 93)) = ''A'' \<and> fst (getGrade (hundred_notes 90)) = ''A-''
   \<and> fst (getGrade (hundred_notes 92)) = spec_grade 92
   \<and> getGrade mounted = (''F'', ''text-red-400'')"
proof -
  have l: "length (notesRef (hundred_notes h)) = 100" "totalHitsRef (hundred_notes h) = h"
    "notesRef (hundred_notes h) \<noteq> []" for h
    by (simp_all add: hundred_notes_def)
  have m: "notesRef mounted = []" by (simp add: mounted_def)
  show ?thesis
    using getGrade_thresholds [of "hundred_notes 93"] getGrade_thresholds [of "hundred_notes 90"]
      getGrade_thresholds [of "hundred_notes 92"] getGrade_thresholds [of mounted] m
    by (simp add: l spec_grade_def)
qed

section \<open>Session executions\<close>

lemma judge_length: "length (notesRef (fst (judge st l t s))) = length (notesRef s)"
  by (simp add: judge_notes split: option.splits)

lemma judge_hit_mono:
  "hit (notesRef s ! n) \<Longrightarrow> hit (notesRef (fst (judge st l t s)) ! n)"
proof (cases "closest l t (notesRef s)")
  case None
  assume "hit (notesRef s ! n)"
  with None show ?thesis by (simp add: judge_notes)
next
  case (Some c)
  assume h: "hit (notesRef s ! n)"
  from closest_in_window [OF Some] have "c < length (notesRef s)" by simp
  with h Some show ?thesis
    by (cases "n = c") (simp_all add: judge_notes)
qed

lemma judge_invariant:
  "scoreRef s = 25 * totalHitsRef s \<Longrightarrow>
   scoreRef (fst (judge st l t s)) = 25 * totalHitsRef (fst (judge st l t s))"
  by (cases "closest l t (notesRef s)") (simp_all add: judge_None judge_Some)

lemma touch_loop_preserves:
  assumes "\<And>s l t. P s \<Longrightarrow> P (fst (judge st l t s))"
  shows "P s \<Longrightarrow> P (fst (handleTouch_loop st touches audio s es))"
proof (induction touches arbitrary: s es)
  case Nil
  then show ?case by simp
next
  case (Cons li touches)
  show ?case
  proof (cases "li < 0 \<or> li > 3")
    case True
    with Cons show ?thesis by simp
  next
    case False
    show ?thesis
    proof (cases audio)
      case None
      with False Cons.prems show ?thesis by simp
    next
      case (Some t)
      have "P (fst (judge st (nat li) t s))" using Cons.prems by (rule assms)
      from Cons.IH [OF this] False Some show ?thesis
        by (simp add: split_beta)
    qed
  qed
qed

lemma step_preserves:
  assumes s: "P s"
    and j: "\<And>s st l t. P s \<Longrightarrow> P (fst (judge st l t s))"
    and a: "\<And>s t. P s \<Longrightarrow> P (autoMiss t s)"
  shows "P (step e s)"
proof (cases e)
  case (KeyDown st key audio)
  with s j [of s st] show ?thesis
    by (simp add: handleKey_def split_beta split: option.splits)
next
  case (TouchStart st container touches audio)
  have "P (fst (handleTouch_loop st touches audio s []))"
  proof (rule touch_loop_preserves [where P = P])
    show "P (fst (judge st l t s'))" if "P s'" for s' l t
      using that by (rule j)
    show "P s" by (rule s)
  qed
  with TouchStart s show ?thesis
    by (simp add: handleTouch_def)
next
  case (Frame audio container)
  with s a [of s] show ?thesis
    by (simp add: render_def split: option.splits)
qed

lemma run_preserves:
  assumes s: "P s"
    and j: "\<And>s st l t. P s \<Longrightarrow> P (fst (judge st l t s))"
    and a: "\<And>s t. P s \<Longrightarrow> P (autoMiss t s)"
  shows "P (run es s)"
  using s
proof (induction es arbitrary: s)
  case Nil
  then show ?case by simp
next
  case (Cons e es)
  from Cons.prems have "P (step e s)"
    by (rule step_preserves [where P = P, OF _ j a])
  then show ?case using Cons.IH by simp
qed

lemma autoMiss_length: "length (notesRef (autoMiss t s)) = length (notesRef s)"
  by (simp add: autoMiss_eq)

lemma autoMiss_hit_mono:
  "n < length (notesRef s) \<Longrightarrow> hit (notesRef s ! n) \<Longrightarrow> hit (notesRef (autoMiss t s) ! n)"
  by (simp add: autoMiss_eq swept_def)

lemma run_length: "length (notesRef (run es s)) = length (notesRef s)"
  by (rule run_preserves [where P = "\<lambda>s' :: GameState. length (notesRef s') = length (notesRef s)"])
     (simp_all add: judge_length autoMiss_length)

lemma step_length: "length (notesRef (step e s)) = length (notesRef s)"
  using run_length [of "[e]" s] by simp

lemma run_hit_mono:
  assumes "n < length (notesRef s)" and "hit (notesRef s ! n)"
  shows "hit (notesRef (run es s) ! n)"
proof -
  let ?P = "\<lambda>s' :: GameState. length (notesRef s') = length (notesRef s) \<and> hit (notesRef s' ! n)"
  have "?P (run es s)"
  proof (rule run_preserves [where P = ?P])
    fix s' :: GameState and st l t assume "?P s'"
    then show "?P (fst (judge st l t s'))" by (simp add: judge_length judge_hit_mono)
  next
    fix s' :: GameState and t assume "?P s'"
    with assms(1) show "?P (autoMiss t s')" by (simp add: autoMiss_length autoMiss_hit_mono)
  next
    from assms(2) show "?P s" by simp
  qed
  then show ?thesis by simp
qed

lemma step_hit_mono:
  "n < length (notesRef s) \<Longrightarrow> hit (notesRef s ! n) \<Longrightarrow> hit (notesRef (step e s) ! n)"
  using run_hit_mono [of n s "[e]"] by simp

lemma flips_hit:
  "n < length (notesRef s) \<Longrightarrow> hit (notesRef s ! n) \<Longrightarrow> flips n es s = 0"
proof (induction es arbitrary: s)
  case Nil
  show ?case by simp
next
  case (Cons e es)
  from Cons.prems have "hit (notesRef (step e s) ! n)" by (rule step_hit_mono)
  moreover from Cons.prems have "n < length (notesRef (step e s))" by (simp add: step_length)
  ultimately have "flips n es (step e s) = 0" using Cons.IH by simp
  with Cons.prems show ?case by simp
qed

lemma flips_le_1: "n < length (notesRef s) \<Longrightarrow> flips n es s \<le> 1"
proof (induction es arbitrary: s)
  case Nil
  show ?case by simp
next
  case (Cons e es)
  have len: "n < length (notesRef (step e s))" using Cons.prems by (simp add: step_length)
  show ?case
  proof (cases "hit (notesRef (step e s) ! n)")
    case True
    with len have "flips n es (step e s) = 0" by (simp add: flips_hit)
    then show ?thesis by simp
  next
    case False
    with Cons.IH [OF len] show ?thesis by simp
  qed
qed

text \<open>
  C9. Along any execution of key presses, touch events and frames, the notes stay in
  place, a \<open>hit\<close> flag that is set stays set, the flag of each note goes from false to
  true at most once, and a note whose flag is set is not selected by any later press.
\<close>

theorem hit_flag_set_once:
  "n < length (notesRef s) \<Longrightarrow>
     length (notesRef (run es s)) = length (notesRef s)
   \<and> (hit (notesRef s ! n) \<longrightarrow> hit (notesRef (run es s) ! n))
   \<and> flips n es s \<le> 1
   \<and> (hit (notesRef s ! n) \<longrightarrow> flips n es s = 0)
   \<and> (hit (notesRef s ! n) \<longrightarrow> closest l t (notesRef (run es s)) \<noteq> Some n)"
proof (intro conjI impI)
  assume n: "n < length (notesRef s)"
  show "length (notesRef (run es s)) = length (notesRef s)" by (rule run_length)
  from n show "flips n es s \<le> 1" by (rule flips_le_1)
  {
    assume h: "hit (notesRef s ! n)"
    from n h show "hit (notesRef (run es s) ! n)" by (rule run_hit_mono)
    then show "closest l t (notesRef (run es s)) \<noteq> Some n"
      using closest_in_window [of l t "notesRef (run es s)" n] by auto
    from n h show "flips n es s = 0" by (rule flips_hit)
  }
qed

theorem hit_flag_set_once_witness:
  "(0 :: nat) < length (notesRef mid_game) \<and> hit (notesRef mid_game ! 0)
   \<and> hit (notesRef (run [KeyDown True ''ArrowLeft'' (Some (1 / 2)), Frame (Some 5) True,
                          TouchStart True True [0, 1] (Some 5)] mid_game) ! 0)
   \<and> flips 0 [KeyDown True ''ArrowLeft'' (Some (1 / 2)), Frame (Some 5) True,
              TouchStart True True [0, 1] (Some 5)] mid_game = 0
   \<and> flips 1 [KeyDown True ''ArrowLeft'' (Some (1 / 2)), Frame (Some 5) True,
              TouchStart True True [0, 1] (Some 5)] mid_game \<le> 1
   \<and> closest 0 (1 / 2)
        (notesRef (run [KeyDown True ''ArrowLeft'' (Some (1 / 2)), Frame (Some 5) True,
                        TouchStart True True [0, 1] (Some 5)] mid_game)) \<noteq> Some 0"
proof -
  let ?es = "[KeyDown True ''ArrowLeft'' (Some (1 / 2)), Frame (Some 5) True,
              TouchStart True True [0, 1] (Some 5)]"
  have n0: "(0 :: nat) < length (notesRef mid_game)"
    and n1: "(1 :: nat) < length (notesRef mid_game)"
    and h0: "hit (notesRef mid_game ! 0)"
    by (simp_all add: mid_game_def)
  from hit_flag_set_once [OF n0, of ?es 0 "1 / 2"] hit_flag_set_once [OF n1, of ?es 0 "1 / 2"]
    n0 h0
  show ?thesis by blast
qed

lemma startGame_invariant:
  "scoreRef (startGame tr (Some td) d s0) = 25 * totalHitsRef (startGame tr (Some td) d s0)"
  by (simp add: startGame_def)

text \<open>
  C10. \<open>startGame\<close> zeroes the four counters, and in every state that an execution of key
  presses, touch events and frames reaches from there, the score is 25 times the hit
  count; each single event keeps this equation.
\<close>

theorem score_is_25_times_hits:
  "scoreRef (run es (startGame tr (Some td) d s0))
     = 25 * totalHitsRef (run es (startGame tr (Some td) d s0))
   \<and> scoreRef (startGame tr (Some td) d s0) = 0
   \<and> comboRef (startGame tr (Some td) d s0) = 0
   \<and> maxComboRef (startGame tr (Some td) d s0) = 0
   \<and> totalHitsRef (startGame tr (Some td) d s0) = 0
   \<and> (scoreRef s = 25 * totalHitsRef s \<longrightarrow> scoreRef (step e s) = 25 * totalHitsRef (step e s))"
proof (intro conjI impI)
  let ?P = "\<lambda>s :: GameState. scoreRef s = 25 * totalHitsRef s"
  have j: "?P (fst (judge st l t s))" if "?P s" for s st l t
    using that by (rule judge_invariant)
  have a: "?P (autoMiss t s)" if "?P s" for s t
    using that by (simp add: autoMiss_eq)
  show "?P (run es (startGame tr (Some td) d s0))"
    by (rule run_preserves [where P = ?P, OF startGame_invariant j a])
  show "?P (step e s)" if "?P s"
    by (rule step_preserves [where P = ?P, OF that j a])
qed (simp_all add: startGame_def)

theorem score_is_25_times_hits_witness:
  "scoreRef (run [KeyDown True ''ArrowLeft'' (Some (dbl (102 / 100)))]
              (startGame (\<lambda>w. w) (Some (four_words ''uno'')) 5 mounted)) = 25
   \<and> totalHitsRef (run [KeyDown True ''ArrowLeft'' (Some (dbl (102 / 100)))]
              (startGame (\<lambda>w. w) (Some (four_words ''uno'')) 5 mounted)) = 1
   \<and> scoreRef mid_game = 25 * totalHitsRef mid_game
   \<and> scoreRef (step (Frame (Some 5) True) mid_game)
       = 25 * totalHitsRef (step (Frame (Some 5) True) mid_game)"
proof -
  let ?es = "[KeyDown True ''ArrowLeft'' (Some (dbl (102 / 100)))]"
  let ?s = "startGame (\<lambda>w. w) (Some (four_words ''uno'')) 5 mounted"
  have m: "scoreRef mid_game = 25 * totalHitsRef mid_game"
    by (simp add: mid_game_def)
  have sc: "scoreRef (run ?es ?s) = 25"
    by code_simp
  note t = score_is_25_times_hits [of ?es "\<lambda>w. w" "four_words ''uno''" 5 mounted mid_game
      "Frame (Some 5) True"]
  from t have "scoreRef (run ?es ?s) = 25 * totalHitsRef (run ?es ?s)" by blast
  with sc have "totalHitsRef (run ?es ?s) = 1" by simp
  moreover from t m
  have "scoreRef (step (Frame (Some 5) True) mid_game)
          = 25 * totalHitsRef (step (Frame (Some 5) True) mid_game)" by blast
  ultimately show ?thesis using sc m by blast
qed

end
